theory Spec2Isabelle
  imports Complex_Main
begin

section \<open>Values: Python errors and numpy floats\<close>

text \<open>
  The measurements of \<^verbatim>\<open>utils/measurement.py\<close> work on counts and on quotients of counts.
  Counts are modelled as \<open>nat\<close>/\<open>int\<close>; the integer-valued float64 cells of
  \<^verbatim>\<open>denom_array\<close> and \<^verbatim>\<open>TP_array\<close> are modelled as \<open>int\<close>. Quotients,
  confidences and IoU values are modelled as \<open>real\<close>: rounding is monotone, so an order
  between exact quotients is an order between the rounded ones. The value numpy gives a
  division by zero (\<open>nan\<close>, \<open>inf\<close>) is kept as a value of \<open>npfloat\<close>.
\<close>

datatype py_error = UnboundLocalError | ZeroDivisionError | ValueError | IndexError

datatype npfloat = NaN | PInf | NInf | Fin real

definition inf_of :: "bool \<Rightarrow> npfloat" where
  "inf_of pos = (if pos then PInf else NInf)"

text \<open>\<^verbatim>\<open>np.true_divide\<close> on two finite cells: \<open>0/0\<close> is \<open>nan\<close>, \<open>x/0\<close> is a signed infinity.\<close>

definition true_divide :: "real \<Rightarrow> real \<Rightarrow> npfloat" where
  "true_divide a b =
     (if b = 0 then (if a = 0 then NaN else inf_of (a > 0)) else Fin (a / b))"

fun np_mul :: "npfloat \<Rightarrow> npfloat \<Rightarrow> npfloat" where
  "np_mul NaN y = NaN"
| "np_mul x NaN = NaN"
| "np_mul (Fin a) (Fin b) = Fin (a * b)"
| "np_mul (Fin a) y = (if a = 0 then NaN else inf_of ((a > 0) = (y = PInf)))"
| "np_mul x (Fin b) = (if b = 0 then NaN else inf_of ((b > 0) = (x = PInf)))"
| "np_mul x y = inf_of (x = y)"

fun np_add :: "npfloat \<Rightarrow> npfloat \<Rightarrow> npfloat" where
  "np_add NaN y = NaN"
| "np_add x NaN = NaN"
| "np_add (Fin a) (Fin b) = Fin (a + b)"
| "np_add (Fin a) y = y"
| "np_add x (Fin b) = x"
| "np_add x y = (if x = y then x else NaN)"

fun np_div :: "npfloat \<Rightarrow> npfloat \<Rightarrow> npfloat" where
  "np_div NaN y = NaN"
| "np_div x NaN = NaN"
| "np_div (Fin a) (Fin b) = true_divide a b"
| "np_div (Fin a) y = Fin 0"
| "np_div x (Fin b) = inf_of ((b \<ge> 0) = (x = PInf))"
| "np_div x y = NaN"

text \<open>IEEE comparison \<open>\<le>\<close>: false as soon as one side is \<open>nan\<close>.\<close>

fun np_le :: "npfloat \<Rightarrow> npfloat \<Rightarrow> bool" where
  "np_le NaN y = False"
| "np_le x NaN = False"
| "np_le NInf y = True"
| "np_le x PInf = True"
| "np_le (Fin a) (Fin b) = (a \<le> b)"
| "np_le x y = False"

text \<open>
  \<^verbatim>\<open>np.max\<close> of a one-dimensional array. It raises on an empty array; every call site
  below guards against the empty case, and the function is left unspecified there.
\<close>

fun np_max :: "real list \<Rightarrow> real" where
  "np_max [x] = x"
| "np_max (x # y # ys) = max x (np_max (y # ys))"

text \<open>\<^verbatim>\<open>np.argmax\<close>: the first index that holds the maximum.\<close>

definition np_argmax :: "real list \<Rightarrow> nat" where
  "np_argmax xs = length (takeWhile (\<lambda>x. x \<noteq> np_max xs) xs)"

text \<open>Python's \<^verbatim>\<open>xs[s:]\<close>: a negative start counts from the end and is clipped at 0.\<close>

definition py_slice_from :: "int \<Rightarrow> 'a list \<Rightarrow> 'a list" where
  "py_slice_from s xs =
     (if s < 0 then drop (nat (max 0 (int (length xs) + s))) xs else drop (nat s) xs)"

text \<open>Python's \<^verbatim>\<open>xs[i]\<close> on a list: a negative index counts from the end.\<close>

definition py_index :: "'a list \<Rightarrow> int \<Rightarrow> py_error + 'a" where
  "py_index xs i =
     (if 0 \<le> i \<and> i < int (length xs) then Inr (xs ! nat i)
      else if i < 0 \<and> - int (length xs) \<le> i then Inr (xs ! nat (int (length xs) + i))
      else Inl IndexError)"

section \<open>Decoded boxes and images\<close>

text \<open>
  \<^verbatim>\<open>decode\<close>, \<^verbatim>\<open>nms\<close>, \<^verbatim>\<open>soft_nms\<close> and \<^verbatim>\<open>cal_iou\<close> live in
  \<^verbatim>\<open>utils/tools.py\<close>, outside the sources at hand. An image is therefore taken as it
  stands after decoding and suppression: the rows \<open>(x, y, w, h, c)\<close> of the ground truth and
  of the prediction, each with the argmax of its class probabilities. \<^verbatim>\<open>cal_iou\<close> is a
  parameter \<open>iou\<close> of every function that calls it.
\<close>

record box =
  box_x :: real
  box_y :: real
  box_w :: real
  box_h :: real
  box_c :: real

record row =
  xywhc :: box
  cls :: nat

record image =
  trues :: "row list"
  preds :: "row list"

definition of_class :: "nat \<Rightarrow> row list \<Rightarrow> box list" where
  "of_class class_i rows = map xywhc (filter (\<lambda>r. cls r = class_i) rows)"

text \<open>
  Modelled from the spec: \<^verbatim>\<open>cal_iou\<close> is missing from the sources; this is the
  intersection over union of two boxes given by centre, width and height, used only to
  instantiate the parameter \<open>iou\<close> at concrete inputs.
\<close>

definition overlap :: "real \<Rightarrow> real \<Rightarrow> real \<Rightarrow> real \<Rightarrow> real" where
  "overlap c1 l1 c2 l2 = max 0 (min (c1 + l1 / 2) (c2 + l2 / 2) - max (c1 - l1 / 2) (c2 - l2 / 2))"

definition box_iou :: "box \<Rightarrow> box \<Rightarrow> real" where
  "box_iou a b =
     (let inter = overlap (box_x a) (box_w a) (box_x b) (box_w b)
                * overlap (box_y a) (box_h a) (box_y b) (box_h b)
      in inter / (box_w a * box_h a + box_w b * box_h b - inter))"

text \<open>
  \<^verbatim>\<open>best_ious_pred = np.max(iou_scores, axis=0)\<close>: for each prediction the best IoU over
  the ground truths; \<^verbatim>\<open>best_ious_true = np.max(iou_scores, axis=1)\<close>: for each ground truth
  the best IoU over the predictions. \<open>iou_scores\<close> has one line per ground truth.
\<close>

definition best_ious_pred :: "(box \<Rightarrow> box \<Rightarrow> real) \<Rightarrow> box list \<Rightarrow> box list \<Rightarrow> real list" where
  "best_ious_pred iou ts ps = map (\<lambda>p. np_max (map (\<lambda>t. iou t p) ts)) ps"

definition best_ious_true :: "(box \<Rightarrow> box \<Rightarrow> real) \<Rightarrow> box list \<Rightarrow> box list \<Rightarrow> real list" where
  "best_ious_true iou ts ps = map (\<lambda>t. np_max (map (\<lambda>p. iou t p) ps)) ts"

section \<open>create_score_mat\<close>

record score_state =
  denom_array :: "(int \<times> int) list"
  TP_array :: "(int \<times> int) list"
  det_counts :: "int list"

text \<open>The body of \<^verbatim>\<open>for class_i in range(class_num)\<close> (lines 103-129).\<close>

definition score_class_step ::
  "(box \<Rightarrow> box \<Rightarrow> real) \<Rightarrow> real \<Rightarrow> int \<Rightarrow> image \<Rightarrow> nat \<Rightarrow> score_state \<Rightarrow> score_state" where
  "score_class_step iou iou_threshold precision_mode img class_i st =
     (let xywhc_true_class = of_class class_i (trues img);
          xywhc_pred_class = of_class class_i (preds img);
          num_PP = int (length xywhc_pred_class);
          num_P = int (length xywhc_true_class);
          d = denom_array st ! class_i;
          denom1 = (denom_array st)[class_i := (fst d + num_PP, snd d + num_P)];
          counts1 = (det_counts st)[class_i := det_counts st ! class_i + num_PP]
      in if length xywhc_true_class > 0 \<and> length xywhc_pred_class > 0 then
           let num_TPP = int (length (filter (\<lambda>v. v \<ge> iou_threshold)
                              (best_ious_pred iou xywhc_true_class xywhc_pred_class)));
               num_TP = int (length (filter (\<lambda>v. v \<ge> iou_threshold)
                              (best_ious_true iou xywhc_true_class xywhc_pred_class)));
               d1 = denom1 ! class_i;
               denom2 = (if precision_mode = 1
                         then denom1[class_i := (fst d1 - (num_TPP - num_TP), snd d1)]
                         else denom1);
               num_TPP2 = (if precision_mode = 1 then num_TP else num_TPP);
               t = TP_array st ! class_i
           in \<lparr>denom_array = denom2,
               TP_array = (TP_array st)[class_i := (fst t + num_TPP2, snd t + num_TP)],
               det_counts = counts1\<rparr>
         else \<lparr>denom_array = denom1, TP_array = TP_array st, det_counts = counts1\<rparr>)"

definition score_sweep ::
  "(box \<Rightarrow> box \<Rightarrow> real) \<Rightarrow> real \<Rightarrow> int \<Rightarrow> nat \<Rightarrow> image list \<Rightarrow> score_state" where
  "score_sweep iou iou_threshold precision_mode class_num imgs =
     fold (\<lambda>img st. fold (score_class_step iou iou_threshold precision_mode img)
                       [0..<class_num] st)
       imgs
       \<lparr>denom_array = replicate class_num (0, 0),
        TP_array = replicate class_num (0, 0),
        det_counts = replicate class_num 0\<rparr>"

record score_line =
  col_precision :: npfloat
  col_recall :: npfloat
  col_F1 :: npfloat
  col_gts :: int
  col_dets :: int

text \<open>Lines 130-143: the division, done once after the sweep, and the table.\<close>

definition create_score_mat ::
  "(box \<Rightarrow> box \<Rightarrow> real) \<Rightarrow> real \<Rightarrow> int \<Rightarrow> nat \<Rightarrow> image list \<Rightarrow> score_line list" where
  "create_score_mat iou iou_threshold precision_mode class_num imgs =
     (let st = score_sweep iou iou_threshold precision_mode class_num imgs
      in map (\<lambda>c.
            let precision = true_divide (of_int (fst (TP_array st ! c)))
                                        (of_int (fst (denom_array st ! c)));
                recall = true_divide (of_int (snd (TP_array st ! c)))
                                     (of_int (snd (denom_array st ! c)))
            in \<lparr>col_precision = precision,
                col_recall = recall,
                col_F1 = np_div (np_mul (np_mul (Fin 2) precision) recall)
                                (np_add precision recall),
                col_gts = snd (denom_array st ! c),
                col_dets = det_counts st ! c\<rparr>)
          [0..<class_num])"

section \<open>PR_func: the constructor\<close>

text \<open>One line \<open>(confidence, matched ground-truth id, IoU mask)\<close> of a \<^verbatim>\<open>detection\<close> array.\<close>

record det =
  d_conf :: real
  d_id :: nat
  d_mask :: bool

text \<open>
  \<^verbatim>\<open>detection[np.argsort(detection[:, 0])[::-1]]\<close>: the lines by descending confidence.
  \<^verbatim>\<open>np.argsort\<close> is modelled by the stable \<open>sort_key\<close>; the order it gives to lines of
  equal confidence is the only thing the model fixes beyond the source.
\<close>

definition sort_desc :: "det list \<Rightarrow> det list" where
  "sort_desc ds = rev (sort_key d_conf ds)"

text \<open>Lines 247-257: the detection lines of one image and class; \<open>num_gts\<close> is the running offset.\<close>

definition make_detection ::
  "(box \<Rightarrow> box \<Rightarrow> real) \<Rightarrow> real \<Rightarrow> box list \<Rightarrow> box list \<Rightarrow> nat \<Rightarrow> det list" where
  "make_detection iou iou_threshold xywhc_true_class xywhc_pred_class num_gts =
     map (\<lambda>p. \<lparr>d_conf = box_c p,
               d_id = np_argmax (map (\<lambda>t. iou t p) xywhc_true_class) + num_gts,
               d_mask = (np_max (map (\<lambda>t. iou t p) xywhc_true_class) \<ge> iou_threshold)\<rparr>)
       xywhc_pred_class"

text \<open>Lines 259-263: the cap \<^verbatim>\<open>max_per_img\<close> (\<open>None\<close> switches it off).\<close>

definition cap_detection :: "int option \<Rightarrow> det list \<Rightarrow> det list" where
  "cap_detection max_per_img detection =
     (case max_per_img of
        None \<Rightarrow> detection
      | Some m \<Rightarrow>
          if int (length detection) > m
          then py_slice_from (- m) (sort_desc detection)
          else detection)"

text \<open>What one image adds to the accumulator of a class (empty when line 241 fails).\<close>

definition img_detection ::
  "(box \<Rightarrow> box \<Rightarrow> real) \<Rightarrow> real \<Rightarrow> int option \<Rightarrow> image \<Rightarrow> nat \<Rightarrow> nat \<Rightarrow> det list" where
  "img_detection iou iou_threshold max_per_img img class_i num_gts =
     (let xywhc_true_class = of_class class_i (trues img);
          xywhc_pred_class = of_class class_i (preds img)
      in if length xywhc_true_class > 0 \<and> length xywhc_pred_class > 0
         then cap_detection max_per_img
                (make_detection iou iou_threshold xywhc_true_class xywhc_pred_class num_gts)
         else [])"

text \<open>The body of \<^verbatim>\<open>for class_i in range(class_num)\<close> of the sweep (lines 233-266).\<close>

definition sweep_class_step ::
  "(box \<Rightarrow> box \<Rightarrow> real) \<Rightarrow> real \<Rightarrow> int option \<Rightarrow> image \<Rightarrow> nat
     \<Rightarrow> nat list \<times> det list list \<Rightarrow> nat list \<times> det list list" where
  "sweep_class_step iou iou_threshold max_per_img img class_i st =
     (let gts = fst st; detections = snd st;
          num_gts = gts ! class_i;
          num_P = length (of_class class_i (trues img))
      in (gts[class_i := num_gts + num_P],
          detections[class_i := detections ! class_i
             @ img_detection iou iou_threshold max_per_img img class_i num_gts]))"

definition sweep_img ::
  "(box \<Rightarrow> box \<Rightarrow> real) \<Rightarrow> real \<Rightarrow> int option \<Rightarrow> nat \<Rightarrow> image
     \<Rightarrow> nat list \<times> det list list \<Rightarrow> nat list \<times> det list list" where
  "sweep_img iou iou_threshold max_per_img class_num img st =
     fold (sweep_class_step iou iou_threshold max_per_img img) [0..<class_num] st"

definition sweep ::
  "(box \<Rightarrow> box \<Rightarrow> real) \<Rightarrow> real \<Rightarrow> int option \<Rightarrow> nat \<Rightarrow> image list
     \<Rightarrow> nat list \<times> det list list" where
  "sweep iou iou_threshold max_per_img class_num imgs =
     fold (sweep_img iou iou_threshold max_per_img class_num) imgs
       (replicate class_num 0, replicate class_num [])"

text \<open>
  Lines 277-286, one turn of \<^verbatim>\<open>for det_i in range(len(detection))\<close>: the precision, the
  recall and the value left in \<^verbatim>\<open>num_TP\<close>. \<^verbatim>\<open>len(set(...))\<close> is the number of distinct
  ids. The recall is a division of Python integers and raises on zero; the precision is a
  numpy division, whose denominator is positive at every rank of the loop.
\<close>

definition det_step :: "nat \<Rightarrow> det list \<Rightarrow> nat \<Rightarrow> py_error + (real \<times> real \<times> nat)" where
  "det_step num_gts detection det_i =
     (let dt = take (det_i + 1) detection;
          obj = filter d_mask dt;
          num_TP = length (remdups (map d_id obj));
          num_dets = int (length dt);
          num_TPP = int (length obj);
          num_FP = num_dets - num_TPP
      in if num_gts = 0 then Inl ZeroDivisionError
         else Inr (real num_TP / real_of_int (int num_TP + num_FP),
                   real num_TP / real num_gts,
                   num_TP))"

text \<open>
  The loop over \<open>det_i\<close>. The state is the two sequences of the class and the Python
  variable \<^verbatim>\<open>num_TP\<close>, which is local to \<^verbatim>\<open>__init__\<close> and not to the class loop:
  \<open>None\<close> while it has never been assigned.
\<close>

fun det_loop ::
  "nat \<Rightarrow> det list \<Rightarrow> nat list \<Rightarrow> real list \<times> real list \<times> nat option
     \<Rightarrow> py_error + (real list \<times> real list \<times> nat option)" where
  "det_loop num_gts detection [] st = Inr st"
| "det_loop num_gts detection (det_i # rest) (pcs, rcs, tp) =
     (case det_step num_gts detection det_i of
        Inl e \<Rightarrow> Inl e
      | Inr (p, r, n) \<Rightarrow> det_loop num_gts detection rest (pcs @ [p], rcs @ [r], Some n))"

text \<open>Lines 272-288, one class: the sorted detections, the loop, the sentinel.\<close>

definition class_curve ::
  "nat \<Rightarrow> det list \<Rightarrow> nat option \<Rightarrow> py_error + (real list \<times> real list \<times> nat option)" where
  "class_curve num_gts dets num_TP0 =
     (let detection = sort_desc dets
      in (case det_loop num_gts detection [0..<length detection] ([], [], num_TP0) of
           Inl e \<Rightarrow> Inl e
         | Inr (pcs, rcs, tp) \<Rightarrow>
             (case tp of
                None \<Rightarrow> Inl UnboundLocalError
              | Some num_TP \<Rightarrow>
                  if num_gts = 0 then Inl ZeroDivisionError
                  else Inr (pcs @ [0], rcs @ [real num_TP / real num_gts], Some num_TP))))"

text \<open>The loop over the classes (line 271), threading \<^verbatim>\<open>num_TP\<close> from class to class.\<close>

fun curves ::
  "nat list \<Rightarrow> det list list \<Rightarrow> nat list \<Rightarrow> real list list \<times> real list list \<times> nat option
     \<Rightarrow> py_error + (real list list \<times> real list list \<times> nat option)" where
  "curves gts detections [] st = Inr st"
| "curves gts detections (class_i # rest) (precs, recs, tp) =
     (case class_curve (gts ! class_i) (detections ! class_i) tp of
        Inl e \<Rightarrow> Inl e
      | Inr (pcs, rcs, tp') \<Rightarrow> curves gts detections rest (precs @ [pcs], recs @ [rcs], tp'))"

record PR_func =
  class_num :: nat
  precisions :: "real list list"
  recalls :: "real list list"

definition PR_func_init ::
  "(box \<Rightarrow> box \<Rightarrow> real) \<Rightarrow> real \<Rightarrow> int option \<Rightarrow> nat \<Rightarrow> image list \<Rightarrow> py_error + PR_func" where
  "PR_func_init iou iou_threshold max_per_img n imgs =
     (let st = sweep iou iou_threshold max_per_img n imgs
      in (case curves (fst st) (snd st) [0..<n] ([], [], None) of
           Inl e \<Rightarrow> Inl e
         | Inr (precs, recs, tp) \<Rightarrow>
             Inr \<lparr>class_num = n, precisions = precs, recalls = recs\<rparr>))"

section \<open>PR_func: the query, the smoothing and the mAP table\<close>

text \<open>\<^verbatim>\<open>__call__\<close> (lines 295-305). \<^verbatim>\<open>.max()\<close> raises on an empty array.\<close>

definition call :: "PR_func \<Rightarrow> real \<Rightarrow> int \<Rightarrow> py_error + real" where
  "call self recall class_idx =
     (if class_idx \<ge> int (class_num self) then Inl IndexError
      else (case py_index (precisions self) class_idx of
        Inl e \<Rightarrow> Inl e
      | Inr pcs \<Rightarrow>
         (case py_index (recalls self) class_idx of
            Inl e \<Rightarrow> Inl e
          | Inr rcs \<Rightarrow>
              (let pc_idx = length (filter (\<lambda>x. x > recall) rcs)
               in if pc_idx = 0 then Inr 0
                  else (let tail = py_slice_from (- int pc_idx) pcs
                        in if tail = [] then Inl ValueError else Inr (np_max tail))))))"

text \<open>
  The smoothing pass (lines 364-369 and 325-330): \<^verbatim>\<open>for i in range(len-1, -1, -1)\<close> over a
  copy of the sequence, with the running \<^verbatim>\<open>max_pc\<close> starting at 0.
\<close>

definition smooth_step :: "nat \<Rightarrow> real list \<times> real \<Rightarrow> real list \<times> real" where
  "smooth_step i st =
     (let pcs = fst st; max_pc = snd st
      in if pcs ! i > max_pc then (pcs, pcs ! i) else (pcs[i := max_pc], max_pc))"

definition smooth :: "real list \<Rightarrow> real list" where
  "smooth pcs = fst (fold smooth_step (rev [0..<length pcs]) (pcs, 0))"

text \<open>Reading \<^verbatim>\<open>a[i]\<close> on a numpy array with \<open>i \<ge> 0\<close>.\<close>

definition np_get :: "real list \<Rightarrow> nat \<Rightarrow> py_error + real" where
  "np_get xs i = (if i < length xs then Inr (xs ! i) else Inl IndexError)"

text \<open>Lines 374-378: the trapezoids of one class, added to \<open>ap\<close>.\<close>

fun area_loop :: "real list \<Rightarrow> real list \<Rightarrow> nat list \<Rightarrow> real \<Rightarrow> py_error + real" where
  "area_loop pcs rcs [] ap = Inr ap"
| "area_loop pcs rcs (pr_i # rest) ap =
     (case np_get rcs (pr_i + 1) of Inl e \<Rightarrow> Inl e | Inr r1 \<Rightarrow>
     (case np_get rcs pr_i of Inl e \<Rightarrow> Inl e | Inr r0 \<Rightarrow>
     (case np_get pcs (pr_i + 1) of Inl e \<Rightarrow> Inl e | Inr p1 \<Rightarrow>
     (case np_get pcs pr_i of Inl e \<Rightarrow> Inl e | Inr p0 \<Rightarrow>
        area_loop pcs rcs rest (ap + (r1 - r0) * ((p1 - p0) / 2 + p0))))))"

datatype map_mode = Voc2007 | Voc2012 | Area | Smootharea

definition class_area :: "PR_func \<Rightarrow> bool \<Rightarrow> nat \<Rightarrow> py_error + real" where
  "class_area self smoothed class_i =
     (case py_index (precisions self) (int class_i) of Inl e \<Rightarrow> Inl e | Inr p \<Rightarrow>
     (case py_index (recalls self) (int class_i) of Inl e \<Rightarrow> Inl e | Inr rcs \<Rightarrow>
        (let pcs = (if smoothed then smooth p else p)
         in area_loop pcs rcs [0..<length pcs - 1] 0)))"

fun point_loop :: "PR_func \<Rightarrow> nat \<Rightarrow> real list \<Rightarrow> real \<Rightarrow> py_error + real" where
  "point_loop self class_i [] ap = Inr ap"
| "point_loop self class_i (rc # rest) ap =
     (case call self rc (int class_i) of
        Inl e \<Rightarrow> Inl e
      | Inr p \<Rightarrow> point_loop self class_i rest (ap + p))"

definition recall_list :: "map_mode \<Rightarrow> real list" where
  "recall_list mode =
     (if mode = Voc2012 then [0, 14 / 100, 29 / 100, 43 / 100, 57 / 100, 71 / 100, 1]
      else map (\<lambda>i. real i / 10) [0..<11])"

definition class_ap :: "PR_func \<Rightarrow> map_mode \<Rightarrow> nat \<Rightarrow> py_error + real" where
  "class_ap self mode class_i =
     (if mode = Area \<or> mode = Smootharea then class_area self (mode = Smootharea) class_i
      else (case point_loop self class_i (recall_list mode) 0 of
             Inl e \<Rightarrow> Inl e
           | Inr ap \<Rightarrow> Inr (ap / real (length (recall_list mode)))))"

fun aps_loop :: "PR_func \<Rightarrow> map_mode \<Rightarrow> nat list \<Rightarrow> real list \<Rightarrow> py_error + real list" where
  "aps_loop self mode [] aps = Inr aps"
| "aps_loop self mode (class_i # rest) aps =
     (case class_ap self mode class_i of
        Inl e \<Rightarrow> Inl e
      | Inr ap \<Rightarrow> aps_loop self mode rest (aps @ [ap]))"

text \<open>
  \<^verbatim>\<open>get_map\<close> (lines 358-395): the list of the classes' AP with their mean appended;
  \<^verbatim>\<open>sum(aps)/len(aps)\<close> raises when there is no class.
\<close>

definition get_map :: "PR_func \<Rightarrow> map_mode \<Rightarrow> py_error + real list" where
  "get_map self mode =
     (case aps_loop self mode [0..<class_num self] [] of
        Inl e \<Rightarrow> Inl e
      | Inr aps \<Rightarrow>
          if length aps = 0 then Inl ZeroDivisionError
          else Inr (aps @ [sum_list aps / real (length aps)]))"

section \<open>Auxiliary notions\<close>

text \<open>The running maximum of the smoothing pass after a suffix: it starts at 0.\<close>

fun smax :: "real list \<Rightarrow> real" where
  "smax [] = 0"
| "smax (x # xs) = max x (smax xs)"

text \<open>
  The trapezoidal integral as the specification words it: over the consecutive pairs of
  points, the step of recall times the average of the two precisions. \<open>area_aps\<close> is the
  column of these integrals, one per class.
\<close>

definition trapezoid :: "real list \<Rightarrow> real list \<Rightarrow> real" where
  "trapezoid pcs rcs =
     sum_list (map (\<lambda>i. (rcs ! (i + 1) - rcs ! i) * ((pcs ! i + pcs ! (i + 1)) / 2))
                 [0..<length pcs - 1])"

definition area_aps :: "PR_func \<Rightarrow> real list" where
  "area_aps self = map (\<lambda>c. trapezoid (precisions self ! c) (recalls self ! c)) [0..<class_num self]"

text \<open>
  The counts of one image and class, named as in \<^verbatim>\<open>create_score_mat\<close>: \<open>img_PP\<close> and
  \<open>img_P\<close> are \<^verbatim>\<open>num_PP\<close> and \<^verbatim>\<open>num_P\<close> (lines 107-108); \<open>img_TPP\<close> and \<open>img_TP\<close> are
  \<^verbatim>\<open>num_TPP\<close> and \<^verbatim>\<open>num_TP\<close> (lines 123-124), and 0 when the test of line 112 fails.
  \<open>total f imgs\<close> is a count accumulated over the dataset; \<open>denom_cell\<close> and \<open>TP_cell\<close> are
  what one image does to the cells of a class in \<^verbatim>\<open>denom_array\<close> and \<^verbatim>\<open>TP_array\<close>.
\<close>

definition num_TPP_of :: "(box \<Rightarrow> box \<Rightarrow> real) \<Rightarrow> real \<Rightarrow> box list \<Rightarrow> box list \<Rightarrow> int" where
  "num_TPP_of iou thr ts ps = int (length (filter (\<lambda>v. v \<ge> thr) (best_ious_pred iou ts ps)))"

definition num_TP_of :: "(box \<Rightarrow> box \<Rightarrow> real) \<Rightarrow> real \<Rightarrow> box list \<Rightarrow> box list \<Rightarrow> int" where
  "num_TP_of iou thr ts ps = int (length (filter (\<lambda>v. v \<ge> thr) (best_ious_true iou ts ps)))"

definition img_PP :: "nat \<Rightarrow> image \<Rightarrow> int" where
  "img_PP c img = int (length (of_class c (preds img)))"

definition img_P :: "nat \<Rightarrow> image \<Rightarrow> int" where
  "img_P c img = int (length (of_class c (trues img)))"

definition img_TPP :: "(box \<Rightarrow> box \<Rightarrow> real) \<Rightarrow> real \<Rightarrow> nat \<Rightarrow> image \<Rightarrow> int" where
  "img_TPP iou thr c img =
     (if length (of_class c (trues img)) > 0 \<and> length (of_class c (preds img)) > 0
      then num_TPP_of iou thr (of_class c (trues img)) (of_class c (preds img)) else 0)"

definition img_TP :: "(box \<Rightarrow> box \<Rightarrow> real) \<Rightarrow> real \<Rightarrow> nat \<Rightarrow> image \<Rightarrow> int" where
  "img_TP iou thr c img =
     (if length (of_class c (trues img)) > 0 \<and> length (of_class c (preds img)) > 0
      then num_TP_of iou thr (of_class c (trues img)) (of_class c (preds img)) else 0)"

definition total :: "(image \<Rightarrow> int) \<Rightarrow> image list \<Rightarrow> int" where
  "total f imgs = sum_list (map f imgs)"

definition denom_cell :: "(box \<Rightarrow> box \<Rightarrow> real) \<Rightarrow> real \<Rightarrow> int \<Rightarrow> image \<Rightarrow> nat \<Rightarrow> int \<times> int \<Rightarrow> int \<times> int" where
  "denom_cell iou thr m img c d =
     (fst d + img_PP c img - (if m = 1 then img_TPP iou thr c img - img_TP iou thr c img else 0),
      snd d + img_P c img)"

definition TP_cell :: "(box \<Rightarrow> box \<Rightarrow> real) \<Rightarrow> real \<Rightarrow> int \<Rightarrow> image \<Rightarrow> nat \<Rightarrow> int \<times> int \<Rightarrow> int \<times> int" where
  "TP_cell iou thr m img c t =
     (fst t + (if m = 1 then img_TP iou thr c img else img_TPP iou thr c img),
      snd t + img_TP iou thr c img)"

text \<open>
  The sweep of the ranked matcher, image by image: \<open>num_P_of\<close> is \<^verbatim>\<open>num_P\<close> (line 238),
  \<open>gts_before c imgs k\<close> is the running offset \<^verbatim>\<open>gts[c]\<close> read at image \<open>k\<close> (line 237),
  and \<open>contributed\<close> is what image \<open>k\<close> appends to \<^verbatim>\<open>detections[c]\<close> (line 265).
\<close>

definition num_P_of :: "nat \<Rightarrow> image \<Rightarrow> nat" where
  "num_P_of c img = length (of_class c (trues img))"

definition gts_before :: "nat \<Rightarrow> image list \<Rightarrow> nat \<Rightarrow> nat" where
  "gts_before c imgs k = sum_list (map (num_P_of c) (take k imgs))"

definition contributed ::
  "(box \<Rightarrow> box \<Rightarrow> real) \<Rightarrow> real \<Rightarrow> int option \<Rightarrow> nat \<Rightarrow> image list \<Rightarrow> nat \<Rightarrow> det list" where
  "contributed iou thr mpi c imgs k =
     img_detection iou thr mpi (imgs ! k) c (gts_before c imgs k)"

text \<open>
  One turn of the loop over the sorted detections, as functions of the index: the value left
  in \<^verbatim>\<open>num_TP\<close>, the precision and the recall appended (lines 280-286).
\<close>

definition tp_at :: "det list \<Rightarrow> nat \<Rightarrow> nat" where
  "tp_at ds i = length (remdups (map d_id (filter d_mask (take (i + 1) ds))))"

definition prec_at :: "det list \<Rightarrow> nat \<Rightarrow> real" where
  "prec_at ds i =
     real (tp_at ds i)
       / real_of_int (int (tp_at ds i)
           + (int (length (take (i + 1) ds)) - int (length (filter d_mask (take (i + 1) ds)))))"

definition rec_at :: "nat \<Rightarrow> det list \<Rightarrow> nat \<Rightarrow> real" where
  "rec_at g ds i = real (tp_at ds i) / real g"

text \<open>The shape of the two sequences of a class built from \<open>m\<close> detections.\<close>

definition curve_ok :: "nat \<Rightarrow> real list \<Rightarrow> real list \<Rightarrow> bool" where
  "curve_ok m pcs rcs \<longleftrightarrow>
     length pcs = m + 1 \<and> length rcs = m + 1 \<and> sorted rcs \<and> pcs ! m = 0
     \<and> list_all (\<lambda>p. 0 \<le> p) pcs \<and> (0 < m \<longrightarrow> rcs ! m = rcs ! (m - 1))"

text \<open>
  The query as the specification words it: the first index whose recall strictly exceeds
  \<open>r\<close>, and the maximum of the precisions from that index to the end, or 0 when no recall
  exceeds \<open>r\<close>.
\<close>

definition first_above :: "real \<Rightarrow> real list \<Rightarrow> nat" where
  "first_above r rcs = length (takeWhile (\<lambda>x. \<not> r < x) rcs)"

definition envelope :: "real \<Rightarrow> real list \<Rightarrow> real list \<Rightarrow> real" where
  "envelope r pcs rcs =
     (if \<exists>x \<in> set rcs. r < x then Max (set (drop (first_above r rcs) pcs)) else 0)"

section \<open>The cap on the detections of one image\<close>

text \<open>
  C1. The ranked matcher should keep, for an image and class with more than
  \<^verbatim>\<open>max_per_img\<close> detections, the \<^verbatim>\<open>max_per_img\<close> detections of highest confidence.
  Line 263 takes the tail \<^verbatim>\<open>detection[-max_per_img:]\<close> of the lines sorted by descending
  confidence: with \<^verbatim>\<open>max_per_img = 1\<close>, one ground truth and two detections of
  confidence 0.9 and 0.3 in one image, the accumulator of the class holds the detection of
  confidence 0.3 and the one of confidence 0.9 is dropped.
\<close>

theorem cap_keeps_lowest_confidence:
  "sweep box_iou (1 / 2) (Some 1) 1
     [\<lparr>trues = [\<lparr>xywhc = \<lparr>box_x = 10, box_y = 10, box_w = 4, box_h = 4, box_c = 1\<rparr>, cls = 0\<rparr>],
       preds = [\<lparr>xywhc = \<lparr>box_x = 10, box_y = 10, box_w = 4, box_h = 4, box_c = 9 / 10\<rparr>, cls = 0\<rparr>,
                \<lparr>xywhc = \<lparr>box_x = 11, box_y = 10, box_w = 4, box_h = 4, box_c = 3 / 10\<rparr>, cls = 0\<rparr>]\<rparr>]
   = ([1], [[\<lparr>d_conf = 3 / 10, d_id = 0, d_mask = True\<rparr>]])"
  by code_simp

section \<open>Classes without detections\<close>

text \<open>
  C5. A class with no accumulated detection should still get its degenerate curve, the
  sentinel alone. The sentinel of line 288 reads \<^verbatim>\<open>num_TP\<close>, which only the loop over the
  detections assigns. With one class, one ground truth and no prediction the constructor
  fails on the unbound variable; with two classes, the second one without detections, the
  second curve takes the \<^verbatim>\<open>num_TP\<close> left by the first class and reports recall 1.
\<close>

theorem no_detection_unbound_or_stale:
  "PR_func_init box_iou (1 / 2) (Some 100) 1
     [\<lparr>trues = [\<lparr>xywhc = \<lparr>box_x = 10, box_y = 10, box_w = 4, box_h = 4, box_c = 1\<rparr>, cls = 0\<rparr>],
       preds = []\<rparr>]
   = Inl UnboundLocalError
   \<and> PR_func_init box_iou (1 / 2) (Some 100) 2
     [\<lparr>trues = [\<lparr>xywhc = \<lparr>box_x = 10, box_y = 10, box_w = 4, box_h = 4, box_c = 1\<rparr>, cls = 0\<rparr>,
                \<lparr>xywhc = \<lparr>box_x = 30, box_y = 30, box_w = 4, box_h = 4, box_c = 1\<rparr>, cls = 1\<rparr>],
       preds = [\<lparr>xywhc = \<lparr>box_x = 10, box_y = 10, box_w = 4, box_h = 4, box_c = 9 / 10\<rparr>, cls = 0\<rparr>]\<rparr>]
   = Inr \<lparr>class_num = 2, precisions = [[1, 0], [0]], recalls = [[1, 1], [1]]\<rparr>"
  by code_simp

section \<open>Smoothing\<close>

lemma smax_nonneg: "0 \<le> smax xs"
  by (induction xs) auto

lemma smax_append_ge: "smax ys \<le> smax (xs @ ys)"
  by (induction xs) auto

lemma smax_drop_mono: "i \<le> j \<Longrightarrow> smax (drop j xs) \<le> smax (drop i xs)"
proof -
  assume ij: "i \<le> j"
  have "drop i xs = take (j - i) (drop i xs) @ drop j xs"
    using ij by (metis append_take_drop_id drop_drop le_add_diff_inverse2)
  then show ?thesis using smax_append_ge by metis
qed

lemma smax_Max: "xs \<noteq> [] \<Longrightarrow> 0 \<le> last xs \<Longrightarrow> smax xs = Max (set xs)"
proof (induction xs)
  case Nil then show ?case by simp
next
  case (Cons x xs)
  show ?case
  proof (cases "xs = []")
    case True
    with Cons.prems show ?thesis by simp
  next
    case False
    with Cons have "smax xs = Max (set xs)" by simp
    with False show ?thesis by simp
  qed
qed

text \<open>
  The loop invariant: once the indices \<open>length pcs - 1\<close> down to \<open>k\<close> are done, the entries
  from \<open>k\<close> on hold the running maxima, the entries before \<open>k\<close> are untouched and
  \<^verbatim>\<open>max_pc\<close> is the running maximum at \<open>k\<close>.
\<close>

lemma smooth_fold_inv:
  "k \<le> length pcs \<Longrightarrow>
   fold smooth_step (rev [k..<length pcs]) (pcs, 0)
     = (take k pcs @ map (\<lambda>i. smax (drop i pcs)) [k..<length pcs], smax (drop k pcs))"
proof (induction "length pcs - k" arbitrary: k)
  case 0
  then show ?case by simp
next
  case (Suc d)
  then have klt: "k < length pcs" and d: "d = length pcs - Suc k" by auto
  have ih: "fold smooth_step (rev [Suc k..<length pcs]) (pcs, 0)
     = (take (Suc k) pcs @ map (\<lambda>i. smax (drop i pcs)) [Suc k..<length pcs], smax (drop (Suc k) pcs))"
    using Suc.hyps(1)[OF d] klt by simp
  have upt: "[k..<length pcs] = k # [Suc k..<length pcs]"
    using klt by (simp add: upt_conv_Cons)
  have dr: "drop k pcs = pcs ! k # drop (Suc k) pcs"
    using klt by (simp add: Cons_nth_drop_Suc)
  have tk: "take (Suc k) pcs = take k pcs @ [pcs ! k]"
    using klt by (simp add: take_Suc_conv_app_nth)
  have nthk: "(take (Suc k) pcs @ map (\<lambda>i. smax (drop i pcs)) [Suc k..<length pcs]) ! k = pcs ! k"
    using klt by (simp add: nth_append)
  have updk: "(take (Suc k) pcs @ map (\<lambda>i. smax (drop i pcs)) [Suc k..<length pcs])[k := v]
      = take k pcs @ v # map (\<lambda>i. smax (drop i pcs)) [Suc k..<length pcs]" for v
    using klt by (simp add: tk list_update_append)
  show ?case
    unfolding upt rev.simps fold_append comp_def fold_simps ih
    unfolding smooth_step_def Let_def fst_conv snd_conv nthk updk
    by (auto simp: dr tk max_def)
qed

lemma smooth_eq: "smooth pcs = map (\<lambda>i. smax (drop i pcs)) [0..<length pcs]"
  using smooth_fold_inv[of 0 pcs] by (simp add: smooth_def)

text \<open>
  C9. The smoothing pass keeps the length of the sequence; the smoothed sequence never
  increases with the index, that is, read from the last index (highest rank) toward
  index 0 its values never decrease; and on a sequence of precisions (no entry negative,
  the running maximum starting at 0) every entry becomes the maximum of the original
  sequence from its index to the end.
\<close>

theorem smooth_suffix_max:
  "length (smooth pcs) = length pcs
   \<and> (\<forall>i j. i \<le> j \<and> j < length pcs \<longrightarrow> smooth pcs ! j \<le> smooth pcs ! i)
   \<and> ((\<forall>p \<in> set pcs. 0 \<le> p) \<longrightarrow> (\<forall>i < length pcs. smooth pcs ! i = Max (set (drop i pcs))))"
proof (intro conjI allI impI)
  show "length (smooth pcs) = length pcs" by (simp add: smooth_eq)
next
  fix i j assume "i \<le> j \<and> j < length pcs"
  then show "smooth pcs ! j \<le> smooth pcs ! i"
    by (simp add: smooth_eq smax_drop_mono)
next
  fix i assume nn: "\<forall>p \<in> set pcs. 0 \<le> p" and i: "i < length pcs"
  have ne: "drop i pcs \<noteq> []" using i by simp
  have "last (drop i pcs) \<in> set pcs" using ne by (metis in_set_dropD last_in_set)
  then have "0 \<le> last (drop i pcs)" using nn by blast
  then show "smooth pcs ! i = Max (set (drop i pcs))"
    using i ne by (simp add: smooth_eq smax_Max)
qed

theorem smooth_suffix_max_witness:
  "smooth [1, 1 / 2, 2 / 3, 0] = [1, 2 / 3, 2 / 3, 0]
   \<and> smooth [1, 1 / 2, 2 / 3, 0] ! 1 = Max (set (drop 1 [1, 1 / 2, 2 / 3, 0 :: real]))
   \<and> smooth [1, 1 / 2, 2 / 3, 0] ! 2 \<le> smooth [1, 1 / 2, 2 / 3, 0] ! 1"
proof -
  have a: "smooth [1, 1 / 2, 2 / 3, 0] = [1, 2 / 3, 2 / 3, 0]" by code_simp
  have nn: "\<forall>p \<in> set [1, 1 / 2, 2 / 3, 0 :: real]. 0 \<le> p" by simp
  from smooth_suffix_max[of "[1, 1 / 2, 2 / 3, 0]"] nn
  have b: "smooth [1, 1 / 2, 2 / 3, 0] ! 1 = Max (set (drop 1 [1, 1 / 2, 2 / 3, 0 :: real]))"
    and c: "smooth [1, 1 / 2, 2 / 3, 0] ! 2 \<le> smooth [1, 1 / 2, 2 / 3, 0] ! 1"
    by simp_all
  from a b c show ?thesis by blast
qed

section \<open>The mAP table by area\<close>

lemma area_loop_ok:
  "length pcs \<le> length rcs \<Longrightarrow> \<forall>i \<in> set is. i + 1 < length pcs \<Longrightarrow>
   area_loop pcs rcs is ap
     = Inr (ap + sum_list (map (\<lambda>i. (rcs ! (i + 1) - rcs ! i) * ((pcs ! i + pcs ! (i + 1)) / 2)) is))"
proof (induction "is" arbitrary: ap)
  case Nil then show ?case by simp
next
  case (Cons i "is")
  have a: "(pcs ! Suc i - pcs ! i) / 2 + pcs ! i = (pcs ! i + pcs ! Suc i) / 2"
    by (simp add: field_simps)
  from Cons show ?case
    by (simp add: np_get_def a add.assoc)
qed

lemma class_area_raw:
  assumes "c < length (precisions self)" "c < length (recalls self)"
    "length (precisions self ! c) \<le> length (recalls self ! c)"
  shows "class_area self False c = Inr (trapezoid (precisions self ! c) (recalls self ! c))"
proof -
  let ?p = "precisions self ! c" and ?r = "recalls self ! c"
  have "\<forall>i \<in> set [0..<length ?p - 1]. i + 1 < length ?p" by auto
  from area_loop_ok[OF assms(3) this, of 0] show ?thesis
    using assms(1,2) by (simp add: class_area_def py_index_def trapezoid_def Let_def)
qed

lemma aps_loop_ok:
  "\<forall>c \<in> set cs. class_ap self mode c = Inr (f c) \<Longrightarrow>
   aps_loop self mode cs aps = Inr (aps @ map f cs)"
  by (induction cs arbitrary: aps) auto


lemma area_table_general:
  assumes n: "0 < class_num self"
    and lp: "length (precisions self) = class_num self"
    and lr: "length (recalls self) = class_num self"
    and eq: "\<forall>c < class_num self. length (precisions self ! c) \<le> length (recalls self ! c)"
  shows "get_map self Area
     = Inr (area_aps self @ [sum_list (area_aps self) / real (class_num self)])"
proof -
  have "\<forall>c \<in> set [0..<class_num self]. class_ap self Area c
          = Inr (trapezoid (precisions self ! c) (recalls self ! c))"
    using lp lr eq by (simp add: class_ap_def class_area_raw)
  from aps_loop_ok[OF this, of "[]"] n show ?thesis
    by (simp add: get_map_def area_aps_def)
qed

text \<open>
  C8. On a \<open>PR_func\<close> with at least one class and sequences of equal length,
  \<^verbatim>\<open>get_map("area")\<close> returns, for every class, the trapezoidal integral of the raw
  sequence (the sum over the consecutive pairs of the step of recall times the average of the
  two precisions), followed by the mean of the classes. On the two points (recall 0,
  precision 1) and (recall 1, precision 1) the AP is exactly 1.
\<close>

theorem get_map_area:
  "(0 < class_num self \<and> length (precisions self) = class_num self
     \<and> length (recalls self) = class_num self
     \<and> (\<forall>c < class_num self. length (precisions self ! c) = length (recalls self ! c))
    \<longrightarrow> get_map self Area
          = Inr (area_aps self @ [sum_list (area_aps self) / real (class_num self)]))
   \<and> get_map \<lparr>class_num = 1, precisions = [[1, 1]], recalls = [[0, 1]]\<rparr> Area = Inr [1, 1]"
proof (intro conjI impI)
  assume "0 < class_num self \<and> length (precisions self) = class_num self
     \<and> length (recalls self) = class_num self
     \<and> (\<forall>c < class_num self. length (precisions self ! c) = length (recalls self ! c))"
  then show "get_map self Area
          = Inr (area_aps self @ [sum_list (area_aps self) / real (class_num self)])"
    using area_table_general[of self] by simp
next
  show "get_map \<lparr>class_num = 1, precisions = [[1, 1]], recalls = [[0, 1]]\<rparr> Area = Inr [1, 1]"
    by code_simp
qed

theorem get_map_area_witness:
  "get_map \<lparr>class_num = 2, precisions = [[1, 1 / 2, 0], [1, 0]],
             recalls = [[1 / 2, 1, 1], [1, 1]]\<rparr> Area
      = Inr [3 / 8, 0, 3 / 16]"
proof -
  let ?pr = "\<lparr>class_num = 2, precisions = [[1, 1 / 2, 0], [1, 0]],
             recalls = [[1 / 2, 1, 1], [1, 1 :: real]]\<rparr>"
  have h: "\<forall>c < class_num ?pr. length (precisions ?pr ! c) = length (recalls ?pr ! c)"
    by (simp add: less_Suc_eq numeral_2_eq_2)
  have a: "area_aps ?pr = [3 / 8, 0]"
    by code_simp
  from get_map_area[of ?pr] h a show ?thesis by simp
qed

section \<open>The score table\<close>

lemma score_class_step_cells:
  assumes "c < length (denom_array st)"
  shows "score_class_step iou thr m img c st =
     \<lparr>denom_array = (denom_array st)[c := denom_cell iou thr m img c (denom_array st ! c)],
      TP_array = (TP_array st)[c := TP_cell iou thr m img c (TP_array st ! c)],
      det_counts = (det_counts st)[c := det_counts st ! c + img_PP c img]\<rparr>"
  using assms
  by (auto simp: score_class_step_def Let_def denom_cell_def TP_cell_def img_PP_def img_P_def
      img_TPP_def img_TP_def num_TPP_of_def num_TP_of_def list_update_same_conv)

lemma score_img_fold:
  assumes "length (denom_array st) = n" "length (TP_array st) = n" "length (det_counts st) = n"
  shows "k \<le> n \<Longrightarrow>
     fold (score_class_step iou thr m img) [0..<k] st =
     \<lparr>denom_array = map (\<lambda>c. if c < k then denom_cell iou thr m img c (denom_array st ! c)
                               else denom_array st ! c) [0..<n],
      TP_array = map (\<lambda>c. if c < k then TP_cell iou thr m img c (TP_array st ! c)
                            else TP_array st ! c) [0..<n],
      det_counts = map (\<lambda>c. if c < k then det_counts st ! c + img_PP c img
                              else det_counts st ! c) [0..<n]\<rparr>"
proof (induction k)
  case 0
  have "map ((!) (denom_array st)) [0..<n] = denom_array st"
    "map ((!) (TP_array st)) [0..<n] = TP_array st"
    "map ((!) (det_counts st)) [0..<n] = det_counts st"
    using assms map_nth[of "denom_array st"] map_nth[of "TP_array st"] map_nth[of "det_counts st"]
    by simp_all
  then show ?case by simp
next
  case (Suc k)
  then have k: "k < n" by simp
  have upd: "(map (\<lambda>c. if c < k then f c else g c) [0..<n])[k := f k]
      = map (\<lambda>c. if c < Suc k then f c else g c) [0..<n]" for f g :: "nat \<Rightarrow> 'a"
    using k by (auto simp: list_eq_iff_nth_eq nth_list_update less_Suc_eq)
  show ?case
    using Suc.IH k
    by (simp add: score_class_step_cells) (auto simp: list_eq_iff_nth_eq nth_list_update less_Suc_eq)
qed


lemma total_Nil: "total f [] = 0"
  by (simp add: total_def)

lemma total_snoc: "total f (imgs @ [img]) = total f imgs + f img"
  by (simp add: total_def)

lemma score_sweep_snoc:
  "score_sweep iou thr m n (imgs @ [img])
     = fold (score_class_step iou thr m img) [0..<n] (score_sweep iou thr m n imgs)"
  by (simp add: score_sweep_def)

lemma score_sweep_cells:
  "score_sweep iou thr m n imgs =
     \<lparr>denom_array = map (\<lambda>c. (total (img_PP c) imgs
                                - (if m = 1 then total (img_TPP iou thr c) imgs
                                                 - total (img_TP iou thr c) imgs else 0),
                               total (img_P c) imgs)) [0..<n],
      TP_array = map (\<lambda>c. (if m = 1 then total (img_TP iou thr c) imgs
                              else total (img_TPP iou thr c) imgs,
                            total (img_TP iou thr c) imgs)) [0..<n],
      det_counts = map (\<lambda>c. total (img_PP c) imgs) [0..<n]\<rparr>"
proof (induction imgs rule: rev_induct)
  case Nil
  show ?case
    by (simp add: score_sweep_def total_Nil list_eq_iff_nth_eq)
next
  case (snoc img imgs)
  let ?st = "score_sweep iou thr m n imgs"
  have len: "length (denom_array ?st) = n" "length (TP_array ?st) = n" "length (det_counts ?st) = n"
    by (simp_all add: snoc.IH)
  show ?case
    unfolding score_sweep_snoc score_img_fold[OF len order_refl]
    by (simp add: snoc.IH denom_cell_def TP_cell_def total_snoc)
qed

lemma score_line_nth:
  assumes "c < n"
  shows "create_score_mat iou thr m n imgs ! c =
     (let precision = true_divide
            (of_int (if m = 1 then total (img_TP iou thr c) imgs else total (img_TPP iou thr c) imgs))
            (of_int (total (img_PP c) imgs
                - (if m = 1 then total (img_TPP iou thr c) imgs - total (img_TP iou thr c) imgs else 0)));
          recall = true_divide (of_int (total (img_TP iou thr c) imgs))
                               (of_int (total (img_P c) imgs))
      in \<lparr>col_precision = precision, col_recall = recall,
          col_F1 = np_div (np_mul (np_mul (Fin 2) precision) recall) (np_add precision recall),
          col_gts = total (img_P c) imgs,
          col_dets = total (img_PP c) imgs\<rparr>)"
  using assms
  by (simp add: create_score_mat_def score_sweep_cells Let_def)

lemma total_zero: "\<forall>img \<in> set imgs. f img = 0 \<Longrightarrow> total f imgs = 0"
  by (induction imgs) (auto simp: total_def)

text \<open>
  C10. When no image holds a prediction and the dataset holds exactly one ground-truth box
  of a class, the line of that class in the score table is: precision NaN (0/0), recall 0,
  F1 NaN, gts 1, dets 0; nothing is raised, whatever the precision mode and the thresholds.
\<close>

theorem no_prediction_one_truth:
  assumes "c < n"
    and "\<forall>img \<in> set imgs. preds img = []"
    and "total (img_P c) imgs = 1"
  shows "create_score_mat iou thr m n imgs ! c =
     \<lparr>col_precision = NaN, col_recall = Fin 0, col_F1 = NaN, col_gts = 1, col_dets = 0\<rparr>"
proof -
  have pp: "total (img_PP c) imgs = 0"
    using assms(2) by (intro total_zero) (simp add: img_PP_def of_class_def)
  have tpp: "total (img_TPP iou thr c) imgs = 0"
    using assms(2) by (intro total_zero) (simp add: img_TPP_def of_class_def)
  have tp: "total (img_TP iou thr c) imgs = 0"
    using assms(2) by (intro total_zero) (simp add: img_TP_def of_class_def)
  show ?thesis
    by (simp add: score_line_nth[OF assms(1)] pp tpp tp assms(3) true_divide_def)
qed


theorem no_prediction_one_truth_witness:
  "create_score_mat box_iou (1 / 2) 1 1
     [\<lparr>trues = [\<lparr>xywhc = \<lparr>box_x = 10, box_y = 10, box_w = 4, box_h = 4, box_c = 1\<rparr>, cls = 0\<rparr>],
       preds = []\<rparr>] ! 0
   = \<lparr>col_precision = NaN, col_recall = Fin 0, col_F1 = NaN, col_gts = 1, col_dets = 0\<rparr>"
proof -
  let ?imgs = "[\<lparr>trues = [\<lparr>xywhc = \<lparr>box_x = 10, box_y = 10, box_w = 4, box_h = 4, box_c = 1\<rparr>, cls = 0\<rparr>],
       preds = []\<rparr>]"
  have a: "(0::nat) < 1" by simp
  have b: "\<forall>img \<in> set ?imgs. preds img = []" by simp
  have c: "total (img_P 0) ?imgs = 1" by (simp add: total_def img_P_def of_class_def)
  from no_prediction_one_truth[OF a b c] show ?thesis .
qed

lemma np_max_ge_iff: "xs \<noteq> [] \<Longrightarrow> thr \<le> np_max xs \<longleftrightarrow> (\<exists>x \<in> set xs. thr \<le> x)"
  by (induction xs rule: np_max.induct) (auto simp: le_max_iff_disj)

lemma filter_pos_iff: "0 < length (filter P xs) \<longleftrightarrow> (\<exists>x \<in> set xs. P x)"
  by (simp add: filter_empty_conv)

lemma num_TPP_pos_iff:
  assumes "ts \<noteq> []" "ps \<noteq> []"
  shows "0 < num_TPP_of iou thr ts ps \<longleftrightarrow> (\<exists>p \<in> set ps. \<exists>t \<in> set ts. thr \<le> iou t p)"
  using assms
  by (simp add: num_TPP_of_def best_ious_pred_def filter_empty_conv np_max_ge_iff)

lemma num_TP_pos_iff:
  assumes "ts \<noteq> []" "ps \<noteq> []"
  shows "0 < num_TP_of iou thr ts ps \<longleftrightarrow> (\<exists>p \<in> set ps. \<exists>t \<in> set ts. thr \<le> iou t p)"
  using assms
  by (auto simp add: num_TP_of_def best_ious_true_def filter_empty_conv np_max_ge_iff)

lemma img_TP_pos_iff: "0 < img_TP iou thr c img \<longleftrightarrow> 0 < img_TPP iou thr c img"
  by (simp add: img_TP_def img_TPP_def num_TP_pos_iff num_TPP_pos_iff)

lemma img_TP_nonneg: "0 \<le> img_TP iou thr c img"
  by (simp add: img_TP_def num_TP_of_def)

lemma img_TPP_nonneg: "0 \<le> img_TPP iou thr c img"
  by (simp add: img_TPP_def num_TPP_of_def)

lemma img_TPP_le_PP: "img_TPP iou thr c img \<le> img_PP c img"
proof -
  have "length (filter (\<lambda>v. thr \<le> v) (best_ious_pred iou ts ps)) \<le> length ps" for ts ps
    using length_filter_le[of "\<lambda>v. thr \<le> v" "best_ious_pred iou ts ps"]
    by (simp add: best_ious_pred_def)
  then show ?thesis
    by (simp add: img_TPP_def img_PP_def num_TPP_of_def)
qed

lemma total_nonneg: "(\<And>img. 0 \<le> f img) \<Longrightarrow> 0 \<le> total f imgs"
  by (induction imgs) (auto simp: total_def)

lemma total_mono: "(\<And>img. f img \<le> g img) \<Longrightarrow> total f imgs \<le> total g imgs"
  by (induction imgs) (auto simp: total_def add_mono)

lemma total_pos_iff:
  assumes "\<And>img. 0 \<le> f img"
  shows "0 < total f imgs \<longleftrightarrow> (\<exists>img \<in> set imgs. 0 < f img)"
proof (induction imgs)
  case Nil then show ?case by (simp add: total_def)
next
  case (Cons a imgs)
  have "0 \<le> total f imgs" using assms by (rule total_nonneg)
  moreover have "0 \<le> f a" by (rule assms)
  ultimately show ?case using Cons by (auto simp: total_def)
qed

lemma total_TP_pos_iff:
  "0 < total (img_TP iou thr c) imgs \<longleftrightarrow> 0 < total (img_TPP iou thr c) imgs"
  by (simp add: total_pos_iff img_TP_nonneg img_TPP_nonneg img_TP_pos_iff)

lemma quotient_order:
  fixes a b f :: real
  assumes "0 \<le> a" "0 \<le> b" "0 \<le> f" "0 < f + a" "0 < f + b"
  shows "a / (f + a) \<le> b / (f + b) \<longleftrightarrow> (a \<le> b \<or> f = 0)"
proof -
  have "a / (f + a) \<le> b / (f + b) \<longleftrightarrow> a * (f + b) \<le> b * (f + a)"
    using assms by (simp add: field_simps)
  also have "\<dots> \<longleftrightarrow> a * f \<le> b * f" by (simp add: algebra_simps)
  also have "\<dots> \<longleftrightarrow> (a \<le> b \<or> f = 0)"
    using assms(3) by (cases "f = 0") (auto simp: mult_le_cancel_right)
  finally show ?thesis .
qed

text \<open>
  C2, as amended. For a class with at least one prediction in the dataset, the precision
  of mode 1 is less than or equal to the precision of mode 0 exactly when the accumulated
  \<^verbatim>\<open>num_TP\<close> (ground truths matched) does not exceed the accumulated \<^verbatim>\<open>num_TPP\<close>
  (predictions matched), or every prediction of the class is matched. For a class without
  any prediction both precisions are NaN, and NaN is not ordered. The claim as stated fails
  when one prediction matches two ground truths: with the ground truths (10,10,4,4) and
  (10.5,10,4,4), the predictions (10,10,4,4) and (30,30,4,4) and the threshold 0.5, mode 1
  gives 2/3 and mode 0 gives 1/2.
\<close>

theorem precision_mode_order:
  assumes "c < n"
  shows "(total (img_PP c) imgs = 0 \<longrightarrow>
            col_precision (create_score_mat iou thr 1 n imgs ! c) = NaN
          \<and> col_precision (create_score_mat iou thr 0 n imgs ! c) = NaN)
       \<and> (0 < total (img_PP c) imgs \<longrightarrow>
            (np_le (col_precision (create_score_mat iou thr 1 n imgs ! c))
                   (col_precision (create_score_mat iou thr 0 n imgs ! c))
             \<longleftrightarrow> (total (img_TP iou thr c) imgs \<le> total (img_TPP iou thr c) imgs
                  \<or> total (img_TPP iou thr c) imgs = total (img_PP c) imgs)))"
proof -
  let ?PP = "total (img_PP c) imgs" and ?TPP = "total (img_TPP iou thr c) imgs"
    and ?TP = "total (img_TP iou thr c) imgs"
  have tpp0: "0 \<le> ?TPP" by (rule total_nonneg) (rule img_TPP_nonneg)
  have tp0: "0 \<le> ?TP" by (rule total_nonneg) (rule img_TP_nonneg)
  have le: "?TPP \<le> ?PP" by (rule total_mono) (rule img_TPP_le_PP)
  have pos: "0 < ?TP \<longleftrightarrow> 0 < ?TPP" by (rule total_TP_pos_iff)
  have p1: "col_precision (create_score_mat iou thr 1 n imgs ! c)
      = true_divide (of_int ?TP) (of_int (?PP - (?TPP - ?TP)))"
    by (simp add: score_line_nth[OF assms] Let_def)
  have p0: "col_precision (create_score_mat iou thr 0 n imgs ! c)
      = true_divide (of_int ?TPP) (of_int ?PP)"
    by (simp add: score_line_nth[OF assms] Let_def)
  show ?thesis
  proof (intro conjI impI)
    assume z: "?PP = 0"
    with le tpp0 have "?TPP = 0" by simp
    with pos tp0 have "?TP = 0" by simp
    with z \<open>?TPP = 0\<close>
    show "col_precision (create_score_mat iou thr 1 n imgs ! c) = NaN"
      and "col_precision (create_score_mat iou thr 0 n imgs ! c) = NaN"
      by (simp_all add: p1 p0 true_divide_def)
  next
    assume ppos: "0 < ?PP"
    have dpos: "0 < ?PP - (?TPP - ?TP)"
      using le tp0 pos ppos by linarith
    let ?f = "real_of_int (?PP - ?TPP)"
    have q: "real_of_int ?TP / (?f + real_of_int ?TP) \<le> real_of_int ?TPP / (?f + real_of_int ?TPP)
        \<longleftrightarrow> (real_of_int ?TP \<le> real_of_int ?TPP \<or> ?f = 0)"
      using tp0 tpp0 le dpos ppos by (intro quotient_order) simp_all
    have e1: "real_of_int (?PP - (?TPP - ?TP)) = ?f + real_of_int ?TP" by simp
    have e0: "real_of_int ?PP = ?f + real_of_int ?TPP" by simp
    have "np_le (col_precision (create_score_mat iou thr 1 n imgs ! c))
                (col_precision (create_score_mat iou thr 0 n imgs ! c))
        \<longleftrightarrow> real_of_int ?TP / (?f + real_of_int ?TP) \<le> real_of_int ?TPP / (?f + real_of_int ?TPP)"
      unfolding p1 p0 using dpos ppos
      by (simp only: true_divide_def e1[symmetric] e0[symmetric]) simp
    also have "\<dots> \<longleftrightarrow> (?TP \<le> ?TPP \<or> ?TPP = ?PP)"
      unfolding q by auto
    finally show "np_le (col_precision (create_score_mat iou thr 1 n imgs ! c))
                   (col_precision (create_score_mat iou thr 0 n imgs ! c))
             \<longleftrightarrow> (?TP \<le> ?TPP \<or> ?TPP = ?PP)" .
  qed
qed


theorem precision_mode_order_witness:
  "0 < total (img_PP 0)
         [\<lparr>trues = [\<lparr>xywhc = \<lparr>box_x = 10, box_y = 10, box_w = 4, box_h = 4, box_c = 1\<rparr>, cls = 0\<rparr>],
           preds = [\<lparr>xywhc = \<lparr>box_x = 10, box_y = 10, box_w = 4, box_h = 4, box_c = 9 / 10\<rparr>, cls = 0\<rparr>,
                    \<lparr>xywhc = \<lparr>box_x = 30, box_y = 30, box_w = 4, box_h = 4, box_c = 8 / 10\<rparr>, cls = 0\<rparr>]\<rparr>]
   \<and> np_le (col_precision (create_score_mat box_iou (1 / 2) 1 1
         [\<lparr>trues = [\<lparr>xywhc = \<lparr>box_x = 10, box_y = 10, box_w = 4, box_h = 4, box_c = 1\<rparr>, cls = 0\<rparr>],
           preds = [\<lparr>xywhc = \<lparr>box_x = 10, box_y = 10, box_w = 4, box_h = 4, box_c = 9 / 10\<rparr>, cls = 0\<rparr>,
                    \<lparr>xywhc = \<lparr>box_x = 30, box_y = 30, box_w = 4, box_h = 4, box_c = 8 / 10\<rparr>, cls = 0\<rparr>]\<rparr>] ! 0))
      (col_precision (create_score_mat box_iou (1 / 2) 0 1
         [\<lparr>trues = [\<lparr>xywhc = \<lparr>box_x = 10, box_y = 10, box_w = 4, box_h = 4, box_c = 1\<rparr>, cls = 0\<rparr>],
           preds = [\<lparr>xywhc = \<lparr>box_x = 10, box_y = 10, box_w = 4, box_h = 4, box_c = 9 / 10\<rparr>, cls = 0\<rparr>,
                    \<lparr>xywhc = \<lparr>box_x = 30, box_y = 30, box_w = 4, box_h = 4, box_c = 8 / 10\<rparr>, cls = 0\<rparr>]\<rparr>] ! 0))"
proof -
  let ?imgs = "[\<lparr>trues = [\<lparr>xywhc = \<lparr>box_x = 10, box_y = 10, box_w = 4, box_h = 4, box_c = 1\<rparr>, cls = 0\<rparr>],
           preds = [\<lparr>xywhc = \<lparr>box_x = 10, box_y = 10, box_w = 4, box_h = 4, box_c = 9 / 10\<rparr>, cls = 0\<rparr>,
                    \<lparr>xywhc = \<lparr>box_x = 30, box_y = 30, box_w = 4, box_h = 4, box_c = 8 / 10\<rparr>, cls = 0\<rparr>]\<rparr>]"
  have n: "(0::nat) < 1" by simp
  have pp: "total (img_PP 0) ?imgs = 2" by code_simp
  have tpp: "total (img_TPP box_iou (1 / 2) 0) ?imgs = 1" by code_simp
  have tp: "total (img_TP box_iou (1 / 2) 0) ?imgs = 1" by code_simp
  from precision_mode_order[OF n, of ?imgs box_iou "1 / 2"] pp tpp tp
  show ?thesis by simp
qed

theorem precision_mode_order_counterexample:
  "col_precision (create_score_mat box_iou (1 / 2) 1 1
     [\<lparr>trues = [\<lparr>xywhc = \<lparr>box_x = 10, box_y = 10, box_w = 4, box_h = 4, box_c = 1\<rparr>, cls = 0\<rparr>,
                \<lparr>xywhc = \<lparr>box_x = 21 / 2, box_y = 10, box_w = 4, box_h = 4, box_c = 1\<rparr>, cls = 0\<rparr>],
       preds = [\<lparr>xywhc = \<lparr>box_x = 10, box_y = 10, box_w = 4, box_h = 4, box_c = 9 / 10\<rparr>, cls = 0\<rparr>,
                \<lparr>xywhc = \<lparr>box_x = 30, box_y = 30, box_w = 4, box_h = 4, box_c = 8 / 10\<rparr>, cls = 0\<rparr>]\<rparr>] ! 0)
     = Fin (2 / 3)
   \<and> col_precision (create_score_mat box_iou (1 / 2) 0 1
     [\<lparr>trues = [\<lparr>xywhc = \<lparr>box_x = 10, box_y = 10, box_w = 4, box_h = 4, box_c = 1\<rparr>, cls = 0\<rparr>,
                \<lparr>xywhc = \<lparr>box_x = 21 / 2, box_y = 10, box_w = 4, box_h = 4, box_c = 1\<rparr>, cls = 0\<rparr>],
       preds = [\<lparr>xywhc = \<lparr>box_x = 10, box_y = 10, box_w = 4, box_h = 4, box_c = 9 / 10\<rparr>, cls = 0\<rparr>,
                \<lparr>xywhc = \<lparr>box_x = 30, box_y = 30, box_w = 4, box_h = 4, box_c = 8 / 10\<rparr>, cls = 0\<rparr>]\<rparr>] ! 0)
     = Fin (1 / 2)
   \<and> \<not> np_le (Fin (2 / 3)) (Fin (1 / 2))"
  by code_simp

section \<open>The sweep of the ranked matcher\<close>

lemma sweep_class_step_eq:
  "sweep_class_step iou thr mpi img c (gts, ds) =
     (gts[c := gts ! c + num_P_of c img],
      ds[c := ds ! c @ img_detection iou thr mpi img c (gts ! c)])"
  by (simp add: sweep_class_step_def Let_def num_P_of_def)

lemma sweep_img_fold:
  assumes "length gts = n" "length ds = n"
  shows "k \<le> n \<Longrightarrow>
     fold (sweep_class_step iou thr mpi img) [0..<k] (gts, ds) =
       (map (\<lambda>c. if c < k then gts ! c + num_P_of c img else gts ! c) [0..<n],
        map (\<lambda>c. if c < k then ds ! c @ img_detection iou thr mpi img c (gts ! c) else ds ! c)
          [0..<n])"
proof (induction k)
  case 0
  have "map ((!) gts) [0..<n] = gts" "map ((!) ds) [0..<n] = ds"
    using assms map_nth[of gts] map_nth[of ds] by simp_all
  then show ?case by simp
next
  case (Suc k)
  then have k: "k < n" by simp
  show ?case
    using Suc.IH k
    by (simp add: sweep_class_step_eq) (auto simp: list_eq_iff_nth_eq nth_list_update less_Suc_eq)
qed

lemma sweep_snoc:
  "sweep iou thr mpi n (imgs @ [img]) = sweep_img iou thr mpi n img (sweep iou thr mpi n imgs)"
  by (simp add: sweep_def)

lemma gts_before_snoc:
  "k \<le> length imgs \<Longrightarrow> gts_before c (imgs @ [img]) k = gts_before c imgs k"
  by (simp add: gts_before_def)

lemma contributed_snoc:
  "k < length imgs \<Longrightarrow> contributed iou thr mpi c (imgs @ [img]) k = contributed iou thr mpi c imgs k"
  by (simp add: contributed_def gts_before_snoc nth_append)

lemma sweep_eq:
  "sweep iou thr mpi n imgs =
     (map (\<lambda>c. gts_before c imgs (length imgs)) [0..<n],
      map (\<lambda>c. concat (map (contributed iou thr mpi c imgs) [0..<length imgs])) [0..<n])"
proof (induction imgs rule: rev_induct)
  case Nil
  show ?case by (simp add: sweep_def gts_before_def list_eq_iff_nth_eq)
next
  case (snoc img imgs)
  have m: "map (contributed iou thr mpi c (imgs @ [img])) [0..<length imgs]
      = map (contributed iou thr mpi c imgs) [0..<length imgs]" for c
    by (rule map_cong) (simp_all add: contributed_snoc)
  have last: "contributed iou thr mpi c (imgs @ [img]) (length imgs)
      = img_detection iou thr mpi img c (gts_before c imgs (length imgs))" for c
    by (simp add: contributed_def gts_before_def)
  have g: "gts_before c (imgs @ [img]) (Suc (length imgs))
      = gts_before c imgs (length imgs) + num_P_of c img" for c
    by (simp add: gts_before_def)
  show ?case
    unfolding sweep_snoc snoc.IH sweep_img_def
    by (subst sweep_img_fold[where n = n]) (simp_all add: m last g)
qed


lemma np_max_in_set: "xs \<noteq> [] \<Longrightarrow> np_max xs \<in> set xs"
  by (induction xs rule: np_max.induct) (auto simp: max_def)

lemma np_argmax_less: "xs \<noteq> [] \<Longrightarrow> np_argmax xs < length xs"
proof -
  assume ne: "xs \<noteq> []"
  have "takeWhile (\<lambda>x. x \<noteq> np_max xs) xs \<noteq> xs"
    using np_max_in_set[OF ne] by (auto simp: takeWhile_eq_all_conv)
  moreover have "length (takeWhile (\<lambda>x. x \<noteq> np_max xs) xs) \<le> length xs"
    by (rule length_takeWhile_le)
  ultimately show ?thesis
    unfolding np_argmax_def
    by (metis le_neq_implies_less takeWhile_eq_take take_all_iff order_refl)
qed

lemma make_detection_ids:
  assumes "ts \<noteq> []" "d \<in> set (make_detection iou thr ts ps off)"
  shows "off \<le> d_id d \<and> d_id d < off + length ts"
  using assms np_argmax_less[of "map (\<lambda>t. iou t p) ts" for p]
  by (auto simp: make_detection_def)

lemma set_py_slice_from: "set (py_slice_from s xs) \<subseteq> set xs"
  by (auto simp: py_slice_from_def dest: in_set_dropD)

lemma set_cap_detection: "set (cap_detection mpi ds) \<subseteq> set ds"
  using set_py_slice_from[of _ "sort_desc ds"]
  by (auto simp: cap_detection_def sort_desc_def split: option.splits)

lemma img_detection_ids:
  assumes "d \<in> set (img_detection iou thr mpi img c off)"
  shows "off \<le> d_id d \<and> d_id d < off + num_P_of c img"
proof -
  let ?ts = "of_class c (trues img)" and ?ps = "of_class c (preds img)"
  from assms have ne: "?ts \<noteq> []" and "d \<in> set (cap_detection mpi (make_detection iou thr ?ts ?ps off))"
    by (auto simp: img_detection_def Let_def split: if_splits)
  then have "d \<in> set (make_detection iou thr ?ts ?ps off)"
    using set_cap_detection by blast
  from make_detection_ids[OF ne this] show ?thesis by (simp add: num_P_of_def)
qed

lemma gts_before_Suc:
  "k < length imgs \<Longrightarrow> gts_before c imgs (Suc k) = gts_before c imgs k + num_P_of c (imgs ! k)"
  by (simp add: gts_before_def take_Suc_conv_app_nth)

lemma gts_before_mono: "i \<le> j \<Longrightarrow> gts_before c imgs i \<le> gts_before c imgs j"
proof -
  assume "i \<le> j"
  then have "take j imgs = take i imgs @ take (j - i) (drop i imgs)"
    by (metis le_add_diff_inverse take_add)
  then show ?thesis by (simp add: gts_before_def)
qed

lemma gts_before_sweep:
  "c < n \<Longrightarrow> fst (sweep iou thr mpi n (take k imgs)) ! c = gts_before c imgs k"
proof -
  assume c: "c < n"
  have "take (min (length imgs) k) imgs = take k imgs"
    by (cases "k \<le> length imgs") (simp_all add: min_def)
  then show ?thesis using c by (simp add: sweep_eq gts_before_def)
qed

text \<open>
  C7. For every dataset and class, the accumulator of the class is the concatenation of
  what each image contributes; the offset an image reads is the number of ground truths of
  the class in the images before it; every id recorded for image \<open>k\<close> lies in the range
  from that offset up to (excluded) the offset of the next image; and the ids recorded for
  two different images never collide.
\<close>

theorem matched_ids_disjoint:
  assumes "c < n"
  shows "snd (sweep iou thr mpi n imgs) ! c
           = concat (map (contributed iou thr mpi c imgs) [0..<length imgs])
       \<and> (\<forall>k \<le> length imgs. fst (sweep iou thr mpi n (take k imgs)) ! c = gts_before c imgs k)
       \<and> (\<forall>k < length imgs. \<forall>d \<in> set (contributed iou thr mpi c imgs k).
             gts_before c imgs k \<le> d_id d \<and> d_id d < gts_before c imgs (Suc k))
       \<and> (\<forall>i j. i < j \<and> j < length imgs \<longrightarrow>
             d_id ` set (contributed iou thr mpi c imgs i)
               \<inter> d_id ` set (contributed iou thr mpi c imgs j) = {})"
proof (intro conjI allI impI ballI)
  show "snd (sweep iou thr mpi n imgs) ! c
           = concat (map (contributed iou thr mpi c imgs) [0..<length imgs])"
    using assms by (simp add: sweep_eq)
next
  fix k show "fst (sweep iou thr mpi n (take k imgs)) ! c = gts_before c imgs k"
    using assms by (rule gts_before_sweep)
next
  fix k d assume k: "k < length imgs" and d: "d \<in> set (contributed iou thr mpi c imgs k)"
  from img_detection_ids[OF d[unfolded contributed_def]] gts_before_Suc[OF k]
  show "gts_before c imgs k \<le> d_id d" and "d_id d < gts_before c imgs (Suc k)" by simp_all
next
  fix i j assume ij: "i < j \<and> j < length imgs"
  show "d_id ` set (contributed iou thr mpi c imgs i)
               \<inter> d_id ` set (contributed iou thr mpi c imgs j) = {}"
  proof (rule ccontr)
    assume "\<not> ?thesis"
    then obtain d1 d2 where d1: "d1 \<in> set (contributed iou thr mpi c imgs i)"
      and d2: "d2 \<in> set (contributed iou thr mpi c imgs j)" and eq: "d_id d1 = d_id d2"
      by auto
    have i: "i < length imgs" using ij by simp
    from img_detection_ids[OF d1[unfolded contributed_def]] gts_before_Suc[OF i]
    have "d_id d1 < gts_before c imgs (Suc i)" by simp
    also have "\<dots> \<le> gts_before c imgs j" using ij by (intro gts_before_mono) simp
    also have "\<dots> \<le> d_id d2" using img_detection_ids[OF d2[unfolded contributed_def]] by simp
    finally show False using eq by simp
  qed
qed


theorem matched_ids_disjoint_witness:
  "snd (sweep box_iou (1 / 2) (Some 100) 1
     [\<lparr>trues = [\<lparr>xywhc = \<lparr>box_x = 10, box_y = 10, box_w = 4, box_h = 4, box_c = 1\<rparr>, cls = 0\<rparr>,
                \<lparr>xywhc = \<lparr>box_x = 20, box_y = 20, box_w = 4, box_h = 4, box_c = 1\<rparr>, cls = 0\<rparr>],
       preds = [\<lparr>xywhc = \<lparr>box_x = 20, box_y = 20, box_w = 4, box_h = 4, box_c = 9 / 10\<rparr>, cls = 0\<rparr>]\<rparr>,
      \<lparr>trues = [\<lparr>xywhc = \<lparr>box_x = 10, box_y = 10, box_w = 4, box_h = 4, box_c = 1\<rparr>, cls = 0\<rparr>],
       preds = [\<lparr>xywhc = \<lparr>box_x = 10, box_y = 10, box_w = 4, box_h = 4, box_c = 4 / 5\<rparr>, cls = 0\<rparr>]\<rparr>]) ! 0
   = [\<lparr>d_conf = 9 / 10, d_id = 1, d_mask = True\<rparr>, \<lparr>d_conf = 4 / 5, d_id = 2, d_mask = True\<rparr>]
   \<and> d_id ` set [\<lparr>d_conf = 9 / 10, d_id = 1, d_mask = True\<rparr>]
       \<inter> d_id ` set [\<lparr>d_conf = 4 / 5, d_id = 2, d_mask = True\<rparr>] = {}"
proof -
  let ?imgs = "[\<lparr>trues = [\<lparr>xywhc = \<lparr>box_x = 10, box_y = 10, box_w = 4, box_h = 4, box_c = 1\<rparr>, cls = 0\<rparr>,
                \<lparr>xywhc = \<lparr>box_x = 20, box_y = 20, box_w = 4, box_h = 4, box_c = 1\<rparr>, cls = 0\<rparr>],
       preds = [\<lparr>xywhc = \<lparr>box_x = 20, box_y = 20, box_w = 4, box_h = 4, box_c = 9 / 10\<rparr>, cls = 0\<rparr>]\<rparr>,
      \<lparr>trues = [\<lparr>xywhc = \<lparr>box_x = 10, box_y = 10, box_w = 4, box_h = 4, box_c = 1\<rparr>, cls = 0\<rparr>],
       preds = [\<lparr>xywhc = \<lparr>box_x = 10, box_y = 10, box_w = 4, box_h = 4, box_c = 4 / 5\<rparr>, cls = 0\<rparr>]\<rparr>]"
  have n: "(0::nat) < 1" by simp
  have c0: "contributed box_iou (1 / 2) (Some 100) 0 ?imgs 0
      = [\<lparr>d_conf = 9 / 10, d_id = 1, d_mask = True\<rparr>]" by code_simp
  have c1: "contributed box_iou (1 / 2) (Some 100) 0 ?imgs 1
      = [\<lparr>d_conf = 4 / 5, d_id = 2, d_mask = True\<rparr>]" by code_simp
  have l: "[0..<length ?imgs] = [0, 1]" by code_simp
  note t = matched_ids_disjoint[OF n, of box_iou "1 / 2" "Some 100" ?imgs]
  from t have a: "snd (sweep box_iou (1 / 2) (Some 100) 1 ?imgs) ! 0
      = concat (map (contributed box_iou (1 / 2) (Some 100) 0 ?imgs) [0..<length ?imgs])"
    by blast
  have a': "snd (sweep box_iou (1 / 2) (Some 100) 1 ?imgs) ! 0
      = [\<lparr>d_conf = 9 / 10, d_id = 1, d_mask = True\<rparr>, \<lparr>d_conf = 4 / 5, d_id = 2, d_mask = True\<rparr>]"
    unfolding a l by (simp only: list.map concat.simps c0 c1 append.simps)
  have len: "(0::nat) < 1 \<and> 1 < length ?imgs" by simp
  from t have "0 < (1::nat) \<and> 1 < length ?imgs \<longrightarrow>
      d_id ` set (contributed box_iou (1 / 2) (Some 100) 0 ?imgs 0)
        \<inter> d_id ` set (contributed box_iou (1 / 2) (Some 100) 0 ?imgs 1) = {}"
    by blast
  from this[rule_format, OF len]
  have b': "d_id ` set [\<lparr>d_conf = 9 / 10, d_id = 1, d_mask = True\<rparr>]
       \<inter> d_id ` set [\<lparr>d_conf = 4 / 5, d_id = 2, d_mask = True\<rparr>] = {}"
    by (simp only: c0 c1)
  from a' b' show ?thesis by (rule conjI)
qed

section \<open>The precision-recall sequences\<close>

lemma det_step_eq:
  "det_step g ds i =
     (if g = 0 then Inl ZeroDivisionError else Inr (prec_at ds i, rec_at g ds i, tp_at ds i))"
  by (simp add: det_step_def Let_def prec_at_def rec_at_def tp_at_def)

lemma det_loop_pos:
  "0 < g \<Longrightarrow>
   det_loop g ds is (pcs, rcs, tp) =
     Inr (pcs @ map (prec_at ds) is, rcs @ map (rec_at g ds) is,
          if is = [] then tp else Some (tp_at ds (last is)))"
  by (induction "is" arbitrary: pcs rcs tp) (simp_all add: det_step_eq)

lemma det_loop_zero:
  "det_loop 0 ds is st = (if is = [] then Inr st else Inl ZeroDivisionError)"
  by (cases "is"; cases st) (simp_all add: det_step_eq)

lemma length_sort_desc: "length (sort_desc ds) = length ds"
  by (simp add: sort_desc_def)

lemma sort_desc_Nil_iff: "sort_desc ds = [] \<longleftrightarrow> ds = []"
  using length_sort_desc[of ds] by (metis length_0_conv)

lemma class_curve_zero: "class_curve 0 dets tp0 = Inr res \<Longrightarrow> False"
  by (auto simp: class_curve_def Let_def det_loop_zero split: option.splits if_splits)

lemma class_curve_pos:
  assumes "0 < g"
  shows "class_curve g dets tp0 =
     (let ds = sort_desc dets; m = length dets
      in if dets = []
         then (case tp0 of None \<Rightarrow> Inl UnboundLocalError
               | Some k \<Rightarrow> Inr ([0], [real k / real g], Some k))
         else Inr (map (prec_at ds) [0..<m] @ [0],
                   map (rec_at g ds) [0..<m] @ [rec_at g ds (m - 1)],
                   Some (tp_at ds (m - 1))))"
  using assms
  by (auto simp: class_curve_def Let_def det_loop_pos length_sort_desc rec_at_def
      sort_desc_Nil_iff split: option.splits)

lemma tp_at_mono: "i \<le> j \<Longrightarrow> tp_at ds i \<le> tp_at ds j"
proof -
  assume "i \<le> j"
  then have "set (take (i + 1) ds) \<subseteq> set (take (j + 1) ds)"
    by (intro set_take_subset_set_take) simp
  then have "set (map d_id (filter d_mask (take (i + 1) ds)))
      \<subseteq> set (map d_id (filter d_mask (take (j + 1) ds)))" by auto
  then have "card (set (map d_id (filter d_mask (take (i + 1) ds))))
      \<le> card (set (map d_id (filter d_mask (take (j + 1) ds))))"
    by (intro card_mono) simp_all
  then show ?thesis by (simp add: tp_at_def length_remdups_card_conv)
qed

lemma rec_at_mono: "i \<le> j \<Longrightarrow> rec_at g ds i \<le> rec_at g ds j"
  using tp_at_mono[of i j ds] by (simp add: rec_at_def divide_right_mono)

lemma prec_at_nonneg: "0 \<le> prec_at ds i"
proof -
  have "length (filter d_mask (take (i + 1) ds)) \<le> length (take (i + 1) ds)"
    by (rule length_filter_le)
  then show ?thesis by (simp add: prec_at_def)
qed

lemma sorted_recalls:
  "sorted (map (rec_at g ds) [0..<m] @ [rec_at g ds (m - 1)])"
proof -
  have eq: "map (rec_at g ds) [0..<m] @ [rec_at g ds (m - 1)]
      = map (\<lambda>i. rec_at g ds (min i (m - 1))) [0..<Suc m]"
    by (auto intro: map_cong)
  have "sorted (map (\<lambda>i. rec_at g ds (min i (m - 1))) [0..<Suc m])"
    unfolding sorted_iff_nth_mono
    by (auto intro!: rec_at_mono simp del: upt_Suc)
  then show ?thesis unfolding eq .
qed

lemma class_curve_ok:
  assumes "class_curve g dets tp0 = Inr (pcs, rcs, tp')"
  shows "curve_ok (length dets) pcs rcs \<and> (dets \<noteq> [] \<longrightarrow> 0 < g)"
proof (cases "g = 0")
  case True
  with assms class_curve_zero show ?thesis by blast
next
  case False
  then have g: "0 < g" by simp
  show ?thesis
  proof (cases "dets = []")
    case True
    with assms show ?thesis
      by (auto simp: class_curve_pos[OF g] curve_ok_def split: option.splits)
  next
    case False
    let ?ds = "sort_desc dets" and ?m = "length dets"
    from False assms have p: "pcs = map (prec_at ?ds) [0..<?m] @ [0]"
      and r: "rcs = map (rec_at g ?ds) [0..<?m] @ [rec_at g ?ds (?m - 1)]"
      by (simp_all add: class_curve_pos[OF g] Let_def)
    have m: "0 < ?m" using False by simp
    have "rcs ! ?m = rcs ! (?m - 1)"
      using m by (simp add: r nth_append)
    moreover have "list_all (\<lambda>p. 0 \<le> p) pcs"
      by (simp add: p list_all_iff prec_at_nonneg)
    moreover have "pcs ! ?m = 0" by (simp add: p nth_append)
    ultimately show ?thesis
      using g sorted_recalls[of g ?ds ?m] by (simp add: curve_ok_def p r)
  qed
qed

lemma curves_Inr:
  "curves gts dets cs (precs0, recs0, tp0) = Inr (precs, recs, tp) \<Longrightarrow>
   \<exists>ps rs. precs = precs0 @ ps \<and> recs = recs0 @ rs \<and> length ps = length cs \<and> length rs = length cs
     \<and> (\<forall>k < length cs. curve_ok (length (dets ! (cs ! k))) (ps ! k) (rs ! k)
           \<and> (dets ! (cs ! k) \<noteq> [] \<longrightarrow> 0 < gts ! (cs ! k)))"
proof (induction cs arbitrary: precs0 recs0 tp0)
  case Nil
  then show ?case by simp
next
  case (Cons c cs)
  from Cons.prems obtain pcs rcs tp' where
    cc: "class_curve (gts ! c) (dets ! c) tp0 = Inr (pcs, rcs, tp')"
    and rest: "curves gts dets cs (precs0 @ [pcs], recs0 @ [rcs], tp') = Inr (precs, recs, tp)"
    by (auto split: sum.splits)
  from Cons.IH[OF rest] obtain ps rs where
    e: "precs = (precs0 @ [pcs]) @ ps" "recs = (recs0 @ [rcs]) @ rs"
      "length ps = length cs" "length rs = length cs"
    and a: "\<forall>k < length cs. curve_ok (length (dets ! (cs ! k))) (ps ! k) (rs ! k)
           \<and> (dets ! (cs ! k) \<noteq> [] \<longrightarrow> 0 < gts ! (cs ! k))"
    by blast
  have "\<forall>k < length (c # cs). curve_ok (length (dets ! ((c # cs) ! k))) ((pcs # ps) ! k) ((rcs # rs) ! k)
           \<and> (dets ! ((c # cs) ! k) \<noteq> [] \<longrightarrow> 0 < gts ! ((c # cs) ! k))"
    using a class_curve_ok[OF cc] by (auto simp: nth_Cons split: nat.splits)
  with e show ?case
    by (intro exI[of _ "pcs # ps"] exI[of _ "rcs # rs"]) simp
qed

lemma PR_func_init_Inr:
  assumes "PR_func_init iou thr mpi n imgs = Inr pr"
  shows "class_num pr = n \<and> length (precisions pr) = n \<and> length (recalls pr) = n
     \<and> (\<forall>c < n. curve_ok (length (snd (sweep iou thr mpi n imgs) ! c))
                    (precisions pr ! c) (recalls pr ! c)
              \<and> (snd (sweep iou thr mpi n imgs) ! c \<noteq> [] \<longrightarrow> 0 < fst (sweep iou thr mpi n imgs) ! c))"
proof -
  let ?st = "sweep iou thr mpi n imgs"
  from assms obtain precs recs tp where
    c: "curves (fst ?st) (snd ?st) [0..<n] ([], [], None) = Inr (precs, recs, tp)"
    and pr: "pr = \<lparr>class_num = n, precisions = precs, recalls = recs\<rparr>"
    by (auto simp: PR_func_init_def Let_def split: sum.splits)
  from curves_Inr[OF c] show ?thesis
    by (auto simp: pr)
qed


text \<open>
  C3. Whenever the constructor returns, for every class with at least one accumulated
  detection: the recalls of the class are non-decreasing in rank order; the sequences have
  one entry per detection plus the sentinel; the sentinel has precision 0 and the recall of
  the last detection; and the class has a positive number of ground truths.
\<close>

theorem recall_nondecreasing:
  assumes "PR_func_init iou thr mpi n imgs = Inr pr"
    and "c < n"
    and "snd (sweep iou thr mpi n imgs) ! c \<noteq> []"
  shows "sorted (recalls pr ! c)
       \<and> length (recalls pr ! c) = length (snd (sweep iou thr mpi n imgs) ! c) + 1
       \<and> length (precisions pr ! c) = length (snd (sweep iou thr mpi n imgs) ! c) + 1
       \<and> precisions pr ! c ! length (snd (sweep iou thr mpi n imgs) ! c) = 0
       \<and> recalls pr ! c ! length (snd (sweep iou thr mpi n imgs) ! c)
           = recalls pr ! c ! (length (snd (sweep iou thr mpi n imgs) ! c) - 1)
       \<and> 0 < fst (sweep iou thr mpi n imgs) ! c"
  using PR_func_init_Inr[OF assms(1)] assms(2,3)
  by (simp add: curve_ok_def)

theorem recall_nondecreasing_witness:
  "PR_func_init box_iou (1 / 2) (Some 100) 1
     [\<lparr>trues = [\<lparr>xywhc = \<lparr>box_x = 10, box_y = 10, box_w = 4, box_h = 4, box_c = 1\<rparr>, cls = 0\<rparr>,
                \<lparr>xywhc = \<lparr>box_x = 20, box_y = 20, box_w = 4, box_h = 4, box_c = 1\<rparr>, cls = 0\<rparr>],
       preds = [\<lparr>xywhc = \<lparr>box_x = 20, box_y = 20, box_w = 4, box_h = 4, box_c = 7 / 10\<rparr>, cls = 0\<rparr>,
                \<lparr>xywhc = \<lparr>box_x = 10, box_y = 10, box_w = 4, box_h = 4, box_c = 9 / 10\<rparr>, cls = 0\<rparr>,
                \<lparr>xywhc = \<lparr>box_x = 30, box_y = 30, box_w = 4, box_h = 4, box_c = 4 / 5\<rparr>, cls = 0\<rparr>]\<rparr>]
    = Inr \<lparr>class_num = 1, precisions = [[1, 1 / 2, 2 / 3, 0]], recalls = [[1 / 2, 1 / 2, 1, 1]]\<rparr>
   \<and> sorted (recalls \<lparr>class_num = 1, precisions = [[1, 1 / 2, 2 / 3, 0]],
                      recalls = [[1 / 2, 1 / 2, 1, 1 :: real]]\<rparr> ! 0)"
proof -
  let ?imgs = "[\<lparr>trues = [\<lparr>xywhc = \<lparr>box_x = 10, box_y = 10, box_w = 4, box_h = 4, box_c = 1\<rparr>, cls = 0\<rparr>,
                \<lparr>xywhc = \<lparr>box_x = 20, box_y = 20, box_w = 4, box_h = 4, box_c = 1\<rparr>, cls = 0\<rparr>],
       preds = [\<lparr>xywhc = \<lparr>box_x = 20, box_y = 20, box_w = 4, box_h = 4, box_c = 7 / 10\<rparr>, cls = 0\<rparr>,
                \<lparr>xywhc = \<lparr>box_x = 10, box_y = 10, box_w = 4, box_h = 4, box_c = 9 / 10\<rparr>, cls = 0\<rparr>,
                \<lparr>xywhc = \<lparr>box_x = 30, box_y = 30, box_w = 4, box_h = 4, box_c = 4 / 5\<rparr>, cls = 0\<rparr>]\<rparr>]"
  let ?pr = "\<lparr>class_num = 1, precisions = [[1, 1 / 2, 2 / 3, 0]], recalls = [[1 / 2, 1 / 2, 1, 1 :: real]]\<rparr>"
  have i: "PR_func_init box_iou (1 / 2) (Some 100) 1 ?imgs = Inr ?pr" by code_simp
  have c: "(0::nat) < 1" by simp
  have d: "snd (sweep box_iou (1 / 2) (Some 100) 1 ?imgs) ! 0 \<noteq> []" by code_simp
  from recall_nondecreasing[OF i c d] have "sorted (recalls ?pr ! 0)" by blast
  with i show ?thesis by (rule conjI)
qed

section \<open>The query\<close>

lemma np_max_Max: "xs \<noteq> [] \<Longrightarrow> np_max xs = Max (set xs)"
  by (induction xs rule: np_max.induct) (auto simp: max.commute)

lemma sorted_filter_above:
  "sorted rcs \<Longrightarrow> filter (\<lambda>x. r < x) rcs = dropWhile (\<lambda>x. \<not> r < x) rcs"
proof (induction rcs)
  case Nil then show ?case by simp
next
  case (Cons x xs)
  show ?case
  proof (cases "r < x")
    case True
    with Cons.prems have "\<forall>y \<in> set xs. r < y" by auto
    with True show ?thesis by simp
  next
    case False
    with Cons show ?thesis by simp
  qed
qed

lemma count_above:
  "sorted rcs \<Longrightarrow> length (filter (\<lambda>x. r < x) rcs) = length rcs - first_above r rcs"
proof -
  assume "sorted rcs"
  then have "length (filter (\<lambda>x. r < x) rcs) = length (dropWhile (\<lambda>x. \<not> r < x) rcs)"
    by (simp add: sorted_filter_above)
  moreover have "length (takeWhile (\<lambda>x. \<not> r < x) rcs) + length (dropWhile (\<lambda>x. \<not> r < x) rcs)
      = length rcs"
    by (metis length_append takeWhile_dropWhile_id)
  ultimately show ?thesis by (simp add: first_above_def)
qed


lemma filter_above_empty_iff:
  "length (filter (\<lambda>x. r < x) rcs) = 0 \<longleftrightarrow> \<not> (\<exists>x \<in> set rcs. r < x)"
  by (simp add: filter_empty_conv)

lemma query_sorted:
  assumes "sorted rcs" "length pcs = length rcs"
  shows "(let pc_idx = length (filter (\<lambda>x. x > r) rcs)
          in if pc_idx = 0 then Inr 0
             else (let tail = py_slice_from (- int pc_idx) pcs
                   in if tail = [] then Inl ValueError else Inr (np_max tail)))
         = (Inr (envelope r pcs rcs) :: py_error + real)"
proof (cases "\<exists>x \<in> set rcs. r < x")
  case False
  then show ?thesis
    by (simp add: envelope_def filter_empty_conv)
next
  case True
  let ?k = "length (filter (\<lambda>x. r < x) rcs)"
  have k0: "?k \<noteq> 0" using True by (simp add: filter_empty_conv)
  have k: "?k = length rcs - first_above r rcs" by (rule count_above[OF assms(1)])
  have fa: "first_above r rcs < length rcs" using k k0 by simp
  have sl: "py_slice_from (- int ?k) pcs = drop (first_above r rcs) pcs"
    using k0 fa assms(2) by (simp add: py_slice_from_def k)
  have ne: "drop (first_above r rcs) pcs \<noteq> []" using fa assms(2) by simp
  show ?thesis
    using True k0 ne by (simp add: Let_def sl envelope_def np_max_Max)
qed

lemma call_constructed:
  assumes "PR_func_init iou thr mpi n imgs = Inr pr"
  shows "call pr r i =
     (if int n \<le> i \<or> i < - int n then Inl IndexError
      else Inr (envelope r (precisions pr ! nat (if i < 0 then int n + i else i))
                           (recalls pr ! nat (if i < 0 then int n + i else i))))"
proof -
  note w = PR_func_init_Inr[OF assms]
  have cn: "class_num pr = n" and lp: "length (precisions pr) = n" and lr: "length (recalls pr) = n"
    using w by simp_all
  have ok: "sorted (recalls pr ! c) \<and> length (precisions pr ! c) = length (recalls pr ! c)"
    if "c < n" for c
    using w that by (simp add: curve_ok_def)
  show ?thesis
  proof (cases "int n \<le> i \<or> i < - int n")
    case True
    then show ?thesis by (auto simp: call_def cn py_index_def lp lr)
  next
    case False
    let ?c = "nat (if i < 0 then int n + i else i)"
    have c: "?c < n" using False by auto
    have ip: "py_index (precisions pr) i = Inr (precisions pr ! ?c)"
      using False by (auto simp: py_index_def lp)
    have ir: "py_index (recalls pr) i = Inr (recalls pr ! ?c)"
      using False by (auto simp: py_index_def lr)
    from ok[OF c] have q: "(let pc_idx = length (filter (\<lambda>x. x > r) (recalls pr ! ?c))
          in if pc_idx = 0 then Inr 0
             else (let tail = py_slice_from (- int pc_idx) (precisions pr ! ?c)
                   in if tail = [] then Inl ValueError else Inr (np_max tail)))
         = (Inr (envelope r (precisions pr ! ?c) (recalls pr ! ?c)) :: py_error + real)"
      by (intro query_sorted) simp_all
    have "call pr r i = Inr (envelope r (precisions pr ! ?c) (recalls pr ! ?c))"
      unfolding call_def cn ip ir using False q by simp
    with False show ?thesis by simp
  qed
qed

text \<open>
  C4. On every constructed \<open>PR_func\<close>, for every class index in \<open>[0, class_num)\<close> and every
  recall \<open>r\<close>, the call returns 0 when no entry of the class has a recall above \<open>r\<close>, and
  otherwise the maximum precision over the whole suffix that starts at the first index
  whose recall strictly exceeds \<open>r\<close>.
\<close>

theorem query_envelope:
  assumes "PR_func_init iou thr mpi n imgs = Inr pr"
    and "0 \<le> i" and "i < int n"
  shows "call pr r i = Inr (envelope r (precisions pr ! nat i) (recalls pr ! nat i))"
  using call_constructed[OF assms(1), of r i] assms(2,3) by simp

theorem query_envelope_witness:
  "call 
     \<lparr>class_num = 1, precisions = [[1, 1 / 2, 2 / 3, 0]], recalls = [[1 / 2, 1 / 2, 1, 1 :: real]]\<rparr> (1 / 2) 0 = Inr (2 / 3) \<and> call 
     \<lparr>class_num = 1, precisions = [[1, 1 / 2, 2 / 3, 0]], recalls = [[1 / 2, 1 / 2, 1, 1 :: real]]\<rparr> 1 0 = Inr 0"
proof -
  let ?imgs = "[\<lparr>trues = [\<lparr>xywhc = \<lparr>box_x = 10, box_y = 10, box_w = 4, box_h = 4, box_c = 1\<rparr>, cls = 0\<rparr>,
                \<lparr>xywhc = \<lparr>box_x = 20, box_y = 20, box_w = 4, box_h = 4, box_c = 1\<rparr>, cls = 0\<rparr>],
       preds = [\<lparr>xywhc = \<lparr>box_x = 20, box_y = 20, box_w = 4, box_h = 4, box_c = 7 / 10\<rparr>, cls = 0\<rparr>,
                \<lparr>xywhc = \<lparr>box_x = 10, box_y = 10, box_w = 4, box_h = 4, box_c = 9 / 10\<rparr>, cls = 0\<rparr>,
                \<lparr>xywhc = \<lparr>box_x = 30, box_y = 30, box_w = 4, box_h = 4, box_c = 4 / 5\<rparr>, cls = 0\<rparr>]\<rparr>]"
  have i: "PR_func_init box_iou (1 / 2) (Some 100) 1 ?imgs = Inr 
     \<lparr>class_num = 1, precisions = [[1, 1 / 2, 2 / 3, 0]], recalls = [[1 / 2, 1 / 2, 1, 1 :: real]]\<rparr>" by code_simp
  have a: "(0::int) \<le> 0" and b: "(0::int) < int 1" by simp_all
  have e1: "envelope (1 / 2) [1, 1 / 2, 2 / 3, 0] [1 / 2, 1 / 2, 1, 1] = 2 / 3"
    by (simp add: envelope_def first_above_def)
  have e2: "envelope 1 [1, 1 / 2, 2 / 3, 0] [1 / 2, 1 / 2, 1, 1] = 0"
    by (simp add: envelope_def first_above_def)
  from query_envelope[OF i a b, of "1 / 2"] e1 have "call 
     \<lparr>class_num = 1, precisions = [[1, 1 / 2, 2 / 3, 0]], recalls = [[1 / 2, 1 / 2, 1, 1 :: real]]\<rparr> (1 / 2) 0 = Inr (2 / 3)" by simp
  moreover from query_envelope[OF i a b, of 1] e2 have "call 
     \<lparr>class_num = 1, precisions = [[1, 1 / 2, 2 / 3, 0]], recalls = [[1 / 2, 1 / 2, 1, 1 :: real]]\<rparr> 1 0 = Inr 0" by simp
  ultimately show ?thesis by (rule conjI)
qed

text \<open>
  C6, as amended. On every constructed \<open>PR_func\<close> the call fails with an index error
  exactly when \<open>class_idx \<ge> class_num\<close> or \<open>class_idx < - class_num\<close>, and it fails in no
  other way; an index in \<open>[- class_num, 0)\<close> is accepted and answers for the class
  \<open>class_num + class_idx\<close>, as Python's list indexing does. The claim as stated fails at
  \<open>class_idx = - 1\<close> with one class.
\<close>

theorem query_index_error:
  assumes "PR_func_init iou thr mpi n imgs = Inr pr"
  shows "(call pr r i = Inl IndexError \<longleftrightarrow> int n \<le> i \<or> i < - int n)
       \<and> call pr r i \<noteq> Inl UnboundLocalError \<and> call pr r i \<noteq> Inl ZeroDivisionError
       \<and> call pr r i \<noteq> Inl ValueError
       \<and> (- int n \<le> i \<and> i < 0 \<longrightarrow> call pr r i = call pr r (int n + i))"
  using call_constructed[OF assms, of r i] call_constructed[OF assms, of r "int n + i"]
  by auto


theorem query_index_error_witness:
  "call 
     \<lparr>class_num = 1, precisions = [[1, 1 / 2, 2 / 3, 0]], recalls = [[1 / 2, 1 / 2, 1, 1 :: real]]\<rparr> (1 / 2) (- 1) = call 
     \<lparr>class_num = 1, precisions = [[1, 1 / 2, 2 / 3, 0]], recalls = [[1 / 2, 1 / 2, 1, 1 :: real]]\<rparr> (1 / 2) 0
   \<and> call 
     \<lparr>class_num = 1, precisions = [[1, 1 / 2, 2 / 3, 0]], recalls = [[1 / 2, 1 / 2, 1, 1 :: real]]\<rparr> (1 / 2) 1 = Inl IndexError
   \<and> call 
     \<lparr>class_num = 1, precisions = [[1, 1 / 2, 2 / 3, 0]], recalls = [[1 / 2, 1 / 2, 1, 1 :: real]]\<rparr> (1 / 2) (- 2) = Inl IndexError"
proof -
  let ?imgs = "[\<lparr>trues = [\<lparr>xywhc = \<lparr>box_x = 10, box_y = 10, box_w = 4, box_h = 4, box_c = 1\<rparr>, cls = 0\<rparr>,
                \<lparr>xywhc = \<lparr>box_x = 20, box_y = 20, box_w = 4, box_h = 4, box_c = 1\<rparr>, cls = 0\<rparr>],
       preds = [\<lparr>xywhc = \<lparr>box_x = 20, box_y = 20, box_w = 4, box_h = 4, box_c = 7 / 10\<rparr>, cls = 0\<rparr>,
                \<lparr>xywhc = \<lparr>box_x = 10, box_y = 10, box_w = 4, box_h = 4, box_c = 9 / 10\<rparr>, cls = 0\<rparr>,
                \<lparr>xywhc = \<lparr>box_x = 30, box_y = 30, box_w = 4, box_h = 4, box_c = 4 / 5\<rparr>, cls = 0\<rparr>]\<rparr>]"
  have i: "PR_func_init box_iou (1 / 2) (Some 100) 1 ?imgs = Inr 
     \<lparr>class_num = 1, precisions = [[1, 1 / 2, 2 / 3, 0]], recalls = [[1 / 2, 1 / 2, 1, 1 :: real]]\<rparr>" by code_simp
  from query_index_error[OF i, of "1 / 2" "- 1"]
  have a: "call 
     \<lparr>class_num = 1, precisions = [[1, 1 / 2, 2 / 3, 0]], recalls = [[1 / 2, 1 / 2, 1, 1 :: real]]\<rparr> (1 / 2) (- 1) = call 
     \<lparr>class_num = 1, precisions = [[1, 1 / 2, 2 / 3, 0]], recalls = [[1 / 2, 1 / 2, 1, 1 :: real]]\<rparr> (1 / 2) 0" by simp
  from query_index_error[OF i, of "1 / 2" 1]
  have b: "call 
     \<lparr>class_num = 1, precisions = [[1, 1 / 2, 2 / 3, 0]], recalls = [[1 / 2, 1 / 2, 1, 1 :: real]]\<rparr> (1 / 2) 1 = Inl IndexError" by simp
  from query_index_error[OF i, of "1 / 2" "- 2"]
  have c: "call 
     \<lparr>class_num = 1, precisions = [[1, 1 / 2, 2 / 3, 0]], recalls = [[1 / 2, 1 / 2, 1, 1 :: real]]\<rparr> (1 / 2) (- 2) = Inl IndexError" by simp
  from a b c show ?thesis by blast
qed

theorem query_index_error_counterexample:
  "PR_func_init box_iou (1 / 2) (Some 100) 1
     [\<lparr>trues = [\<lparr>xywhc = \<lparr>box_x = 10, box_y = 10, box_w = 4, box_h = 4, box_c = 1\<rparr>, cls = 0\<rparr>,
                \<lparr>xywhc = \<lparr>box_x = 20, box_y = 20, box_w = 4, box_h = 4, box_c = 1\<rparr>, cls = 0\<rparr>],
       preds = [\<lparr>xywhc = \<lparr>box_x = 20, box_y = 20, box_w = 4, box_h = 4, box_c = 7 / 10\<rparr>, cls = 0\<rparr>,
                \<lparr>xywhc = \<lparr>box_x = 10, box_y = 10, box_w = 4, box_h = 4, box_c = 9 / 10\<rparr>, cls = 0\<rparr>,
                \<lparr>xywhc = \<lparr>box_x = 30, box_y = 30, box_w = 4, box_h = 4, box_c = 4 / 5\<rparr>, cls = 0\<rparr>]\<rparr>]
    = Inr 
     \<lparr>class_num = 1, precisions = [[1, 1 / 2, 2 / 3, 0]], recalls = [[1 / 2, 1 / 2, 1, 1 :: real]]\<rparr>
   \<and> call 
     \<lparr>class_num = 1, precisions = [[1, 1 / 2, 2 / 3, 0]], recalls = [[1 / 2, 1 / 2, 1, 1 :: real]]\<rparr> (1 / 2) (- 1) = Inr (2 / 3)"
  by code_simp

section \<open>Supporting facts\<close>

text \<open>
  The cap in general: when it cuts with a positive \<^verbatim>\<open>max_per_img\<close>, what remains is the
  \<^verbatim>\<open>max_per_img\<close> lines of lowest confidence; with \<^verbatim>\<open>max_per_img = 0\<close> the slice
  \<^verbatim>\<open>detection[-0:]\<close> is the whole array.
\<close>

lemma cap_keeps_tail:
  assumes "0 < m" "m < int (length ds)"
  shows "cap_detection (Some m) ds = rev (take (nat m) (sort_key d_conf ds))"
proof -
  have "drop (length ds - nat m) (rev (sort_key d_conf ds)) = rev (take (nat m) (sort_key d_conf ds))"
    using assms by (simp add: drop_rev)
  moreover have "nat (int (length ds) - m) = length ds - nat m"
    using assms by linarith
  ultimately show ?thesis
    using assms by (simp add: cap_detection_def py_slice_from_def sort_desc_def max_def)
qed

lemma cap_zero_keeps_all: "ds \<noteq> [] \<Longrightarrow> cap_detection (Some 0) ds = sort_desc ds"
  by (simp add: cap_detection_def py_slice_from_def)

text \<open>
  The sentinel in general: the constructor fails on the unbound \<^verbatim>\<open>num_TP\<close> as soon as the
  first class has no accumulated detection.
\<close>

lemma class_curve_unbound: "class_curve g [] None = Inl UnboundLocalError"
  by (simp add: class_curve_def sort_desc_def)

lemma first_class_without_detection:
  assumes "0 < n" "snd (sweep iou thr mpi n imgs) ! 0 = []"
  shows "PR_func_init iou thr mpi n imgs = Inl UnboundLocalError"
proof -
  have "[0..<n] = 0 # [1..<n]" using assms(1) by (simp add: upt_conv_Cons)
  then show ?thesis
    using assms(2) by (simp add: PR_func_init_def Let_def class_curve_unbound)
qed

text \<open>
  The denominator \<^verbatim>\<open>num_TP + num_FP\<close> of line 285 is positive at every rank, so the real
  quotient of \<open>det_step\<close> is the quotient numpy computes; the precisions of a constructed
  \<open>PR_func\<close> are never negative, so the smoothing pass gives them their suffix maxima.
\<close>

lemma prec_denominator_pos:
  assumes "i < length ds"
  shows "0 < int (tp_at ds i)
       + (int (length (take (i + 1) ds)) - int (length (filter d_mask (take (i + 1) ds))))"
proof (cases "filter d_mask (take (i + 1) ds) = []")
  case True
  then show ?thesis using assms by simp
next
  case False
  then have "remdups (map d_id (filter d_mask (take (i + 1) ds))) \<noteq> []" by simp
  then have "0 < tp_at ds i" unfolding tp_at_def by (simp del: remdups_eq_nil_iff)
  moreover have "length (filter d_mask (take (i + 1) ds)) \<le> length (take (i + 1) ds)"
    by (rule length_filter_le)
  ultimately show ?thesis by linarith
qed

lemma constructed_precisions_nonneg:
  assumes "PR_func_init iou thr mpi n imgs = Inr pr" "c < n"
  shows "\<forall>p \<in> set (precisions pr ! c). 0 \<le> p"
  using PR_func_init_Inr[OF assms(1)] assms(2)
  by (simp add: curve_ok_def list_all_iff)

lemma smooth_constructed:
  assumes "PR_func_init iou thr mpi n imgs = Inr pr" "c < n" "i < length (precisions pr ! c)"
  shows "smooth (precisions pr ! c) ! i = Max (set (drop i (precisions pr ! c)))"
proof -
  let ?p = "precisions pr ! c"
  have ne: "drop i ?p \<noteq> []" using assms(3) by simp
  have "last (drop i ?p) \<in> set ?p" using ne by (metis in_set_dropD last_in_set)
  then have "0 \<le> last (drop i ?p)"
    using constructed_precisions_nonneg[OF assms(1,2)] by blast
  then show ?thesis using assms(3) ne by (simp add: smooth_eq smax_Max)
qed

end
